theory Spec2Isabelle
  imports Complex_Main "HOL-Library.Sublist" "HOL-Library.Multiset" "HOL-Library.AList"
begin

section \<open>JavaScript string operations used by both scripts\<close>

text \<open>
  Strings are character lists. \<open>String.prototype.split\<close> with a string separator scans
  from the left and cuts at every non-overlapping occurrence of the separator; with the
  empty separator it cuts between all characters.
\<close>

function splitFrom :: "string \<Rightarrow> string \<Rightarrow> string \<Rightarrow> string list" where
  "splitFrom sep acc [] = [acc]"
| "splitFrom sep acc (c # cs) =
     (if sep \<noteq> [] \<and> prefix sep (c # cs)
      then acc # splitFrom sep [] (drop (length sep - 1) cs)
      else splitFrom sep (acc @ [c]) cs)"
  by pat_completeness auto
termination
  by (relation "measure (\<lambda>(sep, acc, s). length s)") auto

definition splitStr :: "string \<Rightarrow> string \<Rightarrow> string list" where
  "splitStr sep s = (if sep = [] then map (\<lambda>c. [c]) s else splitFrom sep [] s)"

text \<open>\<open>Array.prototype.join\<close> on strings.\<close>

fun joinStr :: "string \<Rightarrow> string list \<Rightarrow> string" where
  "joinStr sep [] = []"
| "joinStr sep [x] = x"
| "joinStr sep (x # y # ys) = x @ sep @ joinStr sep (y # ys)"

text \<open>
  An unanchored regular expression that is a literal (\<open>/lit/.test(s)\<close>) holds when the
  literal occurs somewhere in \<open>s\<close>.
\<close>

fun containsStr :: "string \<Rightarrow> string \<Rightarrow> bool" where
  "containsStr needle [] = (needle = [])"
| "containsStr needle (c # cs) = (prefix needle (c # cs) \<or> containsStr needle cs)"

text \<open>The character class \<open>[a-zA-Z0-9]\<close>.\<close>

definition isAlnum :: "char \<Rightarrow> bool" where
  "isAlnum c =
     (let k = of_char c :: nat
      in (97 \<le> k \<and> k \<le> 122) \<or> (65 \<le> k \<and> k \<le> 90) \<or> (48 \<le> k \<and> k \<le> 57))"

text \<open>\<open>s.replace(/[^a-zA-Z0-9]/g, '_')\<close>.\<close>

definition escapeNonAlnum :: "string \<Rightarrow> string" where
  "escapeNonAlnum s = map (\<lambda>c. if isAlnum c then c else CHR ''_'') s"


section \<open>JavaScript numbers\<close>

text \<open>
  A JavaScript number is an IEEE 754 binary64 value. The model keeps the finite values as
  the reals they denote, the two infinities and \<open>NaN\<close>; the sign of zero is not modelled
  (\<open>-0\<close> and \<open>+0\<close> are both \<open>Finite 0\<close>), so a division by \<open>-0\<close> is outside the model.
  The scripts divide by an array length and by the literal 10 only.
\<close>

datatype number = Finite real | PosInf | NegInf | NaN

text \<open>Rounding to the nearest integer, ties to the even one.\<close>

definition roundEven :: "real \<Rightarrow> int" where
  "roundEven q =
     (let f = \<lfloor>q\<rfloor>; d = q - of_int f
      in if d < 1 / 2 then f else if 1 / 2 < d then f + 1 else if even f then f else f + 1)"

text \<open>
  The exponent of the binade of \<open>x\<close>, not below that of the subnormal numbers, and the
  distance of two neighbouring doubles there (53 bits of precision).
\<close>

definition binade :: "real \<Rightarrow> int" where
  "binade x = max \<lfloor>log 2 \<bar>x\<bar>\<rfloor> (- 1022)"

definition ulpOf :: "real \<Rightarrow> real" where
  "ulpOf x = 2 powr of_int (binade x - 52)"

definition overflowBound :: real where
  "overflowBound = 2 ^ 1024"

text \<open>
  The double a real result is rounded to (round to nearest, ties to even): the nearest
  multiple of \<open>ulpOf x\<close>, an infinity when that reaches \<open>2 ^ 1024\<close>.
\<close>

definition toDouble :: "real \<Rightarrow> number" where
  "toDouble x =
     (if x = 0 then Finite 0
      else (let y = of_int (roundEven (x / ulpOf x)) * ulpOf x
            in if overflowBound \<le> \<bar>y\<bar> then (if 0 < x then PosInf else NegInf)
               else Finite y))"

text \<open>The operators \<open>-x\<close>, \<open>x + y\<close>, \<open>x - y\<close>, \<open>x * y\<close>, \<open>x / y\<close> on numbers.\<close>

fun numNeg :: "number \<Rightarrow> number" where
  "numNeg (Finite a) = Finite (- a)"
| "numNeg PosInf = NegInf"
| "numNeg NegInf = PosInf"
| "numNeg NaN = NaN"

fun numAdd :: "number \<Rightarrow> number \<Rightarrow> number" where
  "numAdd (Finite a) (Finite b) = toDouble (a + b)"
| "numAdd NaN y = NaN"
| "numAdd x NaN = NaN"
| "numAdd PosInf NegInf = NaN"
| "numAdd NegInf PosInf = NaN"
| "numAdd PosInf y = PosInf"
| "numAdd x PosInf = PosInf"
| "numAdd NegInf y = NegInf"
| "numAdd x NegInf = NegInf"

definition numSub :: "number \<Rightarrow> number \<Rightarrow> number" where
  "numSub x y = numAdd x (numNeg y)"

fun signOf :: "number \<Rightarrow> int" where
  "signOf (Finite a) = (if 0 < a then 1 else if a < 0 then - 1 else 0)"
| "signOf PosInf = 1"
| "signOf NegInf = - 1"
| "signOf NaN = 0"

text \<open>The infinity of a sign; \<open>NaN\<close> for the sign 0 (as in \<open>0 * Infinity\<close> and \<open>0 / 0\<close>).\<close>

definition infBySign :: "int \<Rightarrow> number" where
  "infBySign sg = (if sg = 0 then NaN else if 0 < sg then PosInf else NegInf)"

fun numMul :: "number \<Rightarrow> number \<Rightarrow> number" where
  "numMul (Finite a) (Finite b) = toDouble (a * b)"
| "numMul NaN y = NaN"
| "numMul x NaN = NaN"
| "numMul x y = infBySign (signOf x * signOf y)"

fun numDiv :: "number \<Rightarrow> number \<Rightarrow> number" where
  "numDiv (Finite a) (Finite b) =
     (if b = 0 then infBySign (signOf (Finite a)) else toDouble (a / b))"
| "numDiv NaN y = NaN"
| "numDiv x NaN = NaN"
| "numDiv (Finite a) y = Finite 0"
| "numDiv x (Finite b) = infBySign (signOf x * (if b < 0 then - 1 else 1))"
| "numDiv x y = NaN"

text \<open>\<open>Math.sqrt\<close>, correctly rounded.\<close>

fun numSqrt :: "number \<Rightarrow> number" where
  "numSqrt (Finite a) = (if a < 0 then NaN else toDouble (sqrt a))"
| "numSqrt PosInf = PosInf"
| "numSqrt NegInf = NaN"
| "numSqrt NaN = NaN"

text \<open>
  \<open>x ** 2\<close>. The language leaves the accuracy of \<open>**\<close> to the implementation; the model
  takes the correctly rounded square, which is what \<open>x * x\<close> gives.
\<close>

definition numPow2 :: "number \<Rightarrow> number" where
  "numPow2 x = numMul x x"

text \<open>
  \<open>Math.round\<close> rounds half up; the result is a double again, since a double of
  magnitude \<open>2 ^ 52\<close> or more is an integer.
\<close>

fun mathRound :: "number \<Rightarrow> number" where
  "mathRound (Finite a) = Finite (of_int \<lfloor>a + 1 / 2\<rfloor>)"
| "mathRound x = x"

text \<open>\<open>x < y\<close> on numbers, and \<open>Math.min\<close>, \<open>Math.max\<close> of two numbers.\<close>

fun numLess :: "number \<Rightarrow> number \<Rightarrow> bool" where
  "numLess (Finite a) (Finite b) = (a < b)"
| "numLess NaN y = False"
| "numLess x NaN = False"
| "numLess NegInf y = (y \<noteq> NegInf)"
| "numLess x PosInf = (x \<noteq> PosInf)"
| "numLess x y = False"

definition numMin :: "number \<Rightarrow> number \<Rightarrow> number" where
  "numMin x y = (if x = NaN \<or> y = NaN then NaN else if numLess y x then y else x)"

definition numMax :: "number \<Rightarrow> number \<Rightarrow> number" where
  "numMax x y = (if x = NaN \<or> y = NaN then NaN else if numLess x y then y else x)"


section \<open>smokehouse.js: the smoke-test runner\<close>

subsection \<open>Data\<close>

text \<open>Opaque JSON carried through the runner (audits, artifacts).\<close>

datatype json =
    JNull
  | JBool bool
  | JNum int
  | JStr string
  | JArr "json list"
  | JObj "(string \<times> json) list"

text \<open>\<open>lhr.runtimeError\<close> is an object with a \<open>code\<close>, or absent.\<close>

record runtimeErr =
  code :: string

text \<open>One entry of \<open>lhr.timing.entries\<close>.\<close>

record entry =
  entry_name :: string
  entry_duration :: number

text \<open>\<open>LH.Result\<close>, with the fields the two scripts read; \<open>timing\<close> is \<open>lhr.timing.entries\<close>.\<close>

record lhrResult =
  requestedUrl :: string
  runtimeError :: "runtimeErr option"
  audits :: json
  timing :: "entry list"

text \<open>
  \<open>Smokehouse.ExpectedRunnerResult\<close> as an expectation: \<open>artifacts\<close> and \<open>stderr\<close> are
  optional properties (\<open>None\<close> is an unset property).
\<close>

record expectation =
  lhr :: lhrResult
  artifacts :: "json option"
  stderr :: "string list option"

text \<open>The object \<open>runLighthouse\<close> returns, \<open>{lhr, artifacts, stderr}\<close>, all three set.\<close>

record runResult =
  result_lhr :: lhrResult
  result_artifacts :: json
  result_stderr :: "string list"

text \<open>
  What one \<open>spawnSync\<close> call of the external tool gives back: the exit status
  (\<open>None\<close> is JavaScript's \<open>null\<close>, a child killed by a signal), the two captured
  streams, and the report the tool left at the output path together with the artifacts
  it saved (\<open>None\<close> when no file exists at the output path afterwards). A report file
  that exists is taken to hold well-formed JSON, so \<open>JSON.parse\<close> and \<open>loadArtifacts\<close>
  return.
\<close>

record spawnResult =
  spawn_status :: "int option"
  spawn_stdout :: string
  spawn_stderr :: string
  spawn_report :: "(lhrResult \<times> json) option"

text \<open>
  A parsed WHATWG \<open>URL\<close> object, reduced to the three parts the runner reads: \<open>href\<close> is
  the part before the query, then \<open>search\<close> (empty, or \<open>?\<close> and the query), then \<open>hash\<close>.
\<close>

record URL =
  beforeSearch :: string
  search :: string
  hash :: string

definition href :: "URL \<Rightarrow> string" where
  "href u = beforeSearch u @ search u @ hash u"

text \<open>The lines the runner writes to the console, one constructor per message.\<close>

datatype event =
    RetryingNote
  | CommandLine string
  | DebugStdout string
  | DebugStderr string
  | GivingUp
  | NoReport "int option" string
  | Inconsistent "int option" "string option"
  | DebugPaths
  | DoingRun string
  | UpdatedSnapshot string
  | CreatedSnapshot string
  | MissingSnapshot string
  | Asserting string
  | PassingTotal nat
  | FailingTotal nat

text \<open>
  The runner's surroundings. The external tool answers the \<open>n\<close>-th \<open>spawnSync\<close> call of
  the process for a URL; \<open>timestampLength\<close> is \<open>new Date().toUTCString().length\<close>;
  \<open>parseUrl\<close> is the \<open>URL\<close> constructor (\<open>None\<close> when it throws); \<open>md5hex\<close> is
  \<open>crypto.createHash('md5').update(s).digest('hex')\<close>; \<open>jsonParse\<close> reads a snapshot
  file's text (\<open>None\<close> when \<open>JSON.parse\<close> throws); \<open>compareStructured\<close> stands for the
  comparisons of actual and expected \<open>lhr\<close> and artifacts, one flag per comparison.
\<close>

record env =
  spawnSync :: "nat \<Rightarrow> string \<Rightarrow> spawnResult"
  LH_SMOKE_DEBUG :: bool
  timestampLength :: nat
  parseUrl :: "string \<Rightarrow> URL option"
  md5hex :: "string \<Rightarrow> string"
  dirname :: string
  jsonParse :: "string \<Rightarrow> string list option"
  compareStructured :: "lhrResult \<Rightarrow> json \<Rightarrow> lhrResult \<Rightarrow> json option \<Rightarrow> bool list"

text \<open>
  The state the runner changes: how many times the tool has been spawned, the snapshot
  files (path to content), and the console.
\<close>

record world =
  spawnCount :: nat
  files :: "string \<Rightarrow> string option"
  console :: "event list"

definition say :: "event \<Rightarrow> world \<Rightarrow> world" where
  "say e w = w\<lparr>console := console w @ [e]\<rparr>"

text \<open>How a run is cut short: \<open>process.exit(c)\<close> or an uncaught exception.\<close>

datatype abort = ProcessExit "int option" | Thrown string

definition PROTOCOL_TIMEOUT_EXIT_CODE :: int where
  "PROTOCOL_TIMEOUT_EXIT_CODE = 67"

definition RETRIES :: nat where
  "RETRIES = 3"

subsection \<open>Normalizing the error stream\<close>

definition weekdays :: "string list" where
  "weekdays = [''Mon'', ''Tue'', ''Wed'', ''Thu'', ''Fri'', ''Sat'', ''Sun'']"

text \<open>\<open>/^(Mon|Tue|Wed|Thu|Fri|Sat|Sun)/.test(line)\<close>\<close>

definition beginsWithWeekday :: "string \<Rightarrow> bool" where
  "beginsWithWeekday line = list_ex (\<lambda>d. prefix d line) weekdays"

text \<open>\<open>/:(warn|error)/.test(line)\<close>\<close>

definition hasWarnOrError :: "string \<Rightarrow> bool" where
  "hasWarnOrError line = (containsStr '':warn'' line \<or> containsStr '':error'' line)"

text \<open>The \<open>map\<close> callback: \<open>line.substr(timestampLength + 1)\<close> on a weekday line.\<close>

definition stripTimestamp :: "nat \<Rightarrow> string \<Rightarrow> string" where
  "stripTimestamp tsLen line =
     (if beginsWithWeekday line then drop (tsLen + 1) line else line)"

definition normalizeLines :: "nat \<Rightarrow> string list \<Rightarrow> string list" where
  "normalizeLines tsLen ls = filter hasWarnOrError (map (stripTimestamp tsLen) ls)"

definition normalizeStderr :: "nat \<Rightarrow> string \<Rightarrow> string list" where
  "normalizeStderr tsLen text = normalizeLines tsLen (splitStr [CHR 0x0A] text)"

subsection \<open>runLighthouse\<close>

text \<open>JavaScript's \<open>Boolean(exitCode)\<close> for a number or \<open>null\<close>.\<close>

definition truthyExit :: "int option \<Rightarrow> bool" where
  "truthyExit c = (case c of None \<Rightarrow> False | Some k \<Rightarrow> k \<noteq> 0)"

text \<open>
  The \<open>do \<dots> while\<close> loop, entered with the current \<open>runCount\<close>; it returns the last
  \<open>runResults\<close> and the final \<open>runCount\<close>.
\<close>

function spawnLoop :: "env \<Rightarrow> string \<Rightarrow> nat \<Rightarrow> world \<Rightarrow> spawnResult \<times> nat \<times> world" where
  "spawnLoop e u runCount w =
     (let w1 = (if runCount > 0 then say RetryingNote w else w);
          runCount1 = runCount + 1;
          w2 = say (CommandLine u) w1;
          runResults = spawnSync e (spawnCount w2) u;
          w3 = w2\<lparr>spawnCount := spawnCount w2 + 1\<rparr>
      in if spawn_status runResults = Some PROTOCOL_TIMEOUT_EXIT_CODE \<and> runCount1 \<le> RETRIES
         then spawnLoop e u runCount1 w3
         else (runResults, runCount1, w3))"
  by pat_completeness auto
termination
  by (relation "measure (\<lambda>(e, u, runCount, w). RETRIES + 1 - runCount)") auto

definition runLighthouse :: "env \<Rightarrow> string \<Rightarrow> bool \<Rightarrow> world \<Rightarrow> (abort + runResult) \<times> world" where
  "runLighthouse e u isDebug0 w =
     (let isDebug = (isDebug0 \<or> LH_SMOKE_DEBUG e);
          (runResults, runCount, w1) = spawnLoop e u 0 w;
          w2 = (if isDebug
                then say (DebugStderr (spawn_stderr runResults))
                       (say (DebugStdout (spawn_stdout runResults)) w1)
                else w1);
          exitCode = spawn_status runResults
      in if exitCode = Some PROTOCOL_TIMEOUT_EXIT_CODE
         then (Inl (ProcessExit (Some 1)), say GivingUp w2)
         else (case spawn_report runResults of
             None \<Rightarrow>
               (Inl (ProcessExit exitCode), say (NoReport exitCode (spawn_stderr runResults)) w2)
           | Some (parsed, arts) \<Rightarrow>
               (let w3 = (if isDebug then say DebugPaths w2 else w2)
                in if truthyExit exitCode \<noteq> (runtimeError parsed \<noteq> None)
                   then (Inl (ProcessExit (Some 1)),
                         say (Inconsistent exitCode (map_option code (runtimeError parsed))) w3)
                   else (Inr \<lparr>result_lhr = parsed, result_artifacts = arts,
                              result_stderr = normalizeStderr (timestampLength e)
                                                (spawn_stderr runResults)\<rparr>,
                         w3))))"

subsection \<open>getSnapshotPath\<close>

text \<open>
  The body of \<open>getSnapshotPath\<close> after the URL has been parsed. The digest is taken of the
  string literal \<open>'url.search'\<close>, as the source writes it.
\<close>

definition snapshotPathOf :: "(string \<Rightarrow> string) \<Rightarrow> string \<Rightarrow> URL \<Rightarrow> string" where
  "snapshotPathOf md5 dir u0 =
     (let searchHash = (if search u0 = [] then [] else take 6 (md5 ''url.search''));
          u1 = u0\<lparr>search := []\<rparr>;
          escapedUrl = escapeNonAlnum (href u1);
          filename = escapedUrl @ ''_'' @ (if searchHash \<noteq> [] then searchHash else []) @ ''.json''
      in dir @ ''/snapshots/'' @ filename)"

definition getSnapshotPath :: "env \<Rightarrow> expectation \<Rightarrow> abort + string" where
  "getSnapshotPath e expected =
     (case parseUrl e (requestedUrl (lhr expected)) of
        None \<Rightarrow> Inl (Thrown ''TypeError: Invalid URL'')
      | Some u \<Rightarrow> Inr (snapshotPathOf (md5hex e) (dirname e) u))"

subsection \<open>Writing a snapshot: JSON.stringify(lines, null, 2)\<close>

definition hexDigit :: "nat \<Rightarrow> char" where
  "hexDigit k = ''0123456789abcdef'' ! (k mod 16)"

text \<open>JSON's escape of one character inside a string literal.\<close>

definition quoteChar :: "char \<Rightarrow> string" where
  "quoteChar c =
     (let k = of_char c :: nat
      in if k = 0x22 then [CHR 0x5C, CHR 0x22]
         else if k = 0x5C then [CHR 0x5C, CHR 0x5C]
         else if k = 0x08 then [CHR 0x5C, CHR ''b'']
         else if k = 0x09 then [CHR 0x5C, CHR ''t'']
         else if k = 0x0A then [CHR 0x5C, CHR ''n'']
         else if k = 0x0C then [CHR 0x5C, CHR ''f'']
         else if k = 0x0D then [CHR 0x5C, CHR ''r'']
         else if k < 0x20 then [CHR 0x5C, CHR ''u'', CHR ''0'', CHR ''0'',
                                hexDigit (k div 16), hexDigit (k mod 16)]
         else [c])"

definition quoteJson :: "string \<Rightarrow> string" where
  "quoteJson s = [CHR 0x22] @ concat (map quoteChar s) @ [CHR 0x22]"

definition jsonStringifyLines :: "string list \<Rightarrow> string" where
  "jsonStringifyLines ls =
     (if ls = [] then ''[]''
      else ''['' @ [CHR 0x0A]
           @ joinStr ('','' @ [CHR 0x0A]) (map (\<lambda>l. ''  '' @ quoteJson l) ls)
           @ [CHR 0x0A] @ '']'')"

subsection \<open>Reading a snapshot back: JSON.parse of an array of strings\<close>

text \<open>JSON white space: space, tab, line feed, carriage return.\<close>

definition isJsonWs :: "char \<Rightarrow> bool" where
  "isJsonWs c = (let k = of_char c :: nat in k = 0x20 \<or> k = 0x09 \<or> k = 0x0A \<or> k = 0x0D)"

definition skipWs :: "string \<Rightarrow> string" where
  "skipWs s = dropWhile isJsonWs s"

text \<open>The value of a hexadecimal digit.\<close>

definition hexVal :: "char \<Rightarrow> nat option" where
  "hexVal c =
     (let k = of_char c :: nat
      in if 48 \<le> k \<and> k \<le> 57 then Some (k - 48)
         else if 97 \<le> k \<and> k \<le> 102 then Some (k - 87)
         else if 65 \<le> k \<and> k \<le> 70 then Some (k - 55)
         else None)"

text \<open>The character a two-character escape stands for.\<close>

definition unescapeChar :: "char \<Rightarrow> char option" where
  "unescapeChar c =
     (let k = of_char c :: nat
      in if k = 0x22 then Some (CHR 0x22)
         else if k = 0x5C then Some (CHR 0x5C)
         else if k = 0x2F then Some (CHR 0x2F)
         else if c = CHR ''b'' then Some (CHR 0x08)
         else if c = CHR ''f'' then Some (CHR 0x0C)
         else if c = CHR ''n'' then Some (CHR 0x0A)
         else if c = CHR ''r'' then Some (CHR 0x0D)
         else if c = CHR ''t'' then Some (CHR 0x09)
         else None)"

text \<open>
  The characters of a string literal after its opening quotation mark, up to the closing
  one: the decoded string and what follows the literal.
\<close>

definition consTo :: "char \<Rightarrow> (string \<times> string) option \<Rightarrow> (string \<times> string) option" where
  "consTo c r = (case r of None \<Rightarrow> None | Some (s, rest) \<Rightarrow> Some (c # s, rest))"

fun stringBody :: "string \<Rightarrow> (string \<times> string) option" where
  "stringBody [] = None"
| "stringBody (c # cs) =
     (if c = CHR 0x22 then Some ([], cs)
      else if c = CHR 0x5C then
        (case cs of
           [] \<Rightarrow> None
         | e # cs1 \<Rightarrow>
             if e = CHR ''u'' then
               (case cs1 of
                  h1 # h2 # h3 # h4 # cs2 \<Rightarrow>
                    (case (hexVal h1, hexVal h2, hexVal h3, hexVal h4) of
                       (Some a, Some b, Some c', Some d) \<Rightarrow>
                         if a = 0 \<and> b = 0 then consTo (char_of (c' * 16 + d)) (stringBody cs2)
                         else None
                     | _ \<Rightarrow> None)
                | _ \<Rightarrow> None)
             else (case unescapeChar e of
                     None \<Rightarrow> None
                   | Some ch \<Rightarrow> consTo ch (stringBody cs1)))
      else if (of_char c :: nat) < 0x20 then None
      else consTo c (stringBody cs))"

text \<open>
  The elements of a non-empty array of strings, from the opening quote of the first one
  to the closing bracket; it gives the strings and what follows the bracket.
\<close>

function parseElements :: "string \<Rightarrow> (string list \<times> string) option" where
  "parseElements s =
     (case s of
        [] \<Rightarrow> None
      | c # cs \<Rightarrow>
          if c \<noteq> CHR 0x22 then None
          else (case stringBody cs of
                  None \<Rightarrow> None
                | Some (str, rest) \<Rightarrow>
                    (case skipWs rest of
                       [] \<Rightarrow> None
                     | d # ds \<Rightarrow>
                         if d = CHR '','' then
                           (case parseElements (skipWs ds) of
                              None \<Rightarrow> None
                            | Some (strs, rest1) \<Rightarrow> Some (str # strs, rest1))
                         else if d = CHR '']'' then Some ([str], ds)
                         else None)))"
  by pat_completeness auto
termination
proof (relation "measure length")
  show "wf (measure length)" by simp
next
  fix s :: string and c cs x2 str rest d ds
  assume a: "s = c # cs" "stringBody cs = Some x2" "(str, rest) = x2" "skipWs rest = d # ds"
  have sb: "\<And>t u v. stringBody t = Some (u, v) \<Longrightarrow> length v < length t"
  proof -
    fix t u v show "stringBody t = Some (u, v) \<Longrightarrow> length v < length t"
    proof (induction t arbitrary: u v rule: stringBody.induct)
      case 1
      then show ?case by simp
    next
      case (2 c cs)
      then show ?case
        by (auto simp: consTo_def split: if_splits list.splits option.splits prod.splits)
           fastforce+
    qed
  qed
  have "length (dropWhile isJsonWs rest) \<le> length rest" by (rule length_dropWhile_le)
  with a(4) have "length ds < length rest" by (simp add: skipWs_def)
  moreover have "length (skipWs ds) \<le> length ds"
    unfolding skipWs_def by (rule length_dropWhile_le)
  moreover from a(2,3) sb [of cs str rest] have "length rest < length cs" by simp
  ultimately show "(skipWs ds, s) \<in> measure length" using a(1) by simp
qed

text \<open>
  \<open>JSON.parse\<close> on the text of an array of strings: white space, the brackets, the
  elements with their escapes. \<open>None\<close> for a text that is not JSON or is another JSON
  value, and for a four-digit escape of a code above 255, which the model's characters
  do not have.
\<close>

definition jsonParseLines :: "string \<Rightarrow> string list option" where
  "jsonParseLines s =
     (case skipWs s of
        [] \<Rightarrow> None
      | c # cs \<Rightarrow>
          if c \<noteq> CHR ''['' then None
          else (case skipWs cs of
                  [] \<Rightarrow> None
                | d # ds \<Rightarrow>
                    if d = CHR '']'' then (if skipWs ds = [] then Some [] else None)
                    else (case parseElements (d # ds) of
                            None \<Rightarrow> None
                          | Some (strs, rest) \<Rightarrow> if skipWs rest = [] then Some strs else None)))"

declare parseElements.simps [simp del]

subsection \<open>The collation and report step\<close>

text \<open>
  Modelled from the spec: \<open>collateResults\<close> and \<open>report\<close> of smokehouse-report.js, which
  is not among the sources. The spec has the step compare the structured result with the
  expected one, and the error lines with the snapshot, a dimension that is skipped when
  the expected error lines are unset; it gives back a passed/failed pair, a mismatch
  being one counted failure.
\<close>

definition collateResults :: "env \<Rightarrow> runResult \<Rightarrow> expectation \<Rightarrow> bool list" where
  "collateResults e actual expected =
     compareStructured e (result_lhr actual) (result_artifacts actual)
       (lhr expected) (artifacts expected)
     @ (case stderr expected of
          None \<Rightarrow> []
        | Some ls \<Rightarrow> [result_stderr actual = ls])"

definition report :: "bool list \<Rightarrow> nat \<times> nat" where
  "report collated = (length (filter id collated), length (filter Not collated))"

subsection \<open>The loop over the expectations\<close>

text \<open>
  Lines 182 to 202 of the loop body: the guard against a preset \<open>stderr\<close>, then the four
  branches on the snapshot file and the update flag. It returns the expectation with its
  \<open>stderr\<close> as the branch leaves it.
\<close>

definition loadSnapshot ::
  "env \<Rightarrow> bool \<Rightarrow> expectation \<Rightarrow> runResult \<Rightarrow> world \<Rightarrow> (abort + expectation) \<times> world" where
  "loadSnapshot e updateSnaphots expected results w =
     (if stderr expected \<noteq> None then (Inl (Thrown ''Do not set `stderr` directly.''), w)
      else (case getSnapshotPath e expected of
          Inl a \<Rightarrow> (Inl a, w)
        | Inr snapshotPath \<Rightarrow>
            (case files w snapshotPath of
               Some expectedStderrJson \<Rightarrow>
                 if updateSnaphots
                 then (let w1 = say (UpdatedSnapshot snapshotPath) w;
                           w2 = w1\<lparr>files := (files w1)(snapshotPath \<mapsto>
                                   jsonStringifyLines (result_stderr results))\<rparr>
                       in (Inr (expected\<lparr>stderr := Some (result_stderr results)\<rparr>), w2))
                 else (case jsonParse e expectedStderrJson of
                         None \<Rightarrow> (Inl (Thrown ''SyntaxError''), w)
                       | Some ls \<Rightarrow> (Inr (expected\<lparr>stderr := Some ls\<rparr>), w))
             | None \<Rightarrow>
                 if updateSnaphots
                 then (let w1 = say (CreatedSnapshot snapshotPath) w;
                           w2 = w1\<lparr>files := (files w1)(snapshotPath \<mapsto>
                                   jsonStringifyLines (result_stderr results))\<rparr>
                       in (Inr (expected\<lparr>stderr := Some (result_stderr results)\<rparr>), w2))
                 else (Inr expected, say (MissingSnapshot snapshotPath) w))))"

text \<open>
  The whole callback of \<open>expectations.forEach\<close>: it returns the expectation as it is
  handed to the collation step, and the counts of that step.
\<close>

definition processExpectation ::
  "env \<Rightarrow> bool \<Rightarrow> bool \<Rightarrow> expectation \<Rightarrow> world \<Rightarrow> (abort + expectation \<times> nat \<times> nat) \<times> world" where
  "processExpectation e updateSnaphots debug expected w =
     (case runLighthouse e (requestedUrl (lhr expected)) debug
             (say (DoingRun (requestedUrl (lhr expected))) w) of
        (Inl a, w1) \<Rightarrow> (Inl a, w1)
      | (Inr results, w1) \<Rightarrow>
          (case loadSnapshot e updateSnaphots expected results w1 of
             (Inl a, w2) \<Rightarrow> (Inl a, w2)
           | (Inr expected1, w2) \<Rightarrow>
               (let w3 = say (Asserting (requestedUrl (lhr expected1))) w2;
                    collated = collateResults e results expected1;
                    counts = report collated
                in (Inr (expected1, fst counts, snd counts), w3))))"

text \<open>\<open>forEach\<close> with the two counters; an abort in one callback ends the process.\<close>

fun forEachExpectation ::
  "env \<Rightarrow> bool \<Rightarrow> bool \<Rightarrow> expectation list \<Rightarrow> nat \<times> nat \<Rightarrow> world \<Rightarrow> (abort + nat \<times> nat) \<times> world" where
  "forEachExpectation e upd debug [] counts w = (Inr counts, w)"
| "forEachExpectation e upd debug (expected # rest) counts w =
     (case processExpectation e upd debug expected w of
        (Inl a, w1) \<Rightarrow> (Inl a, w1)
      | (Inr (expected1, passed, failed), w1) \<Rightarrow>
          forEachExpectation e upd debug rest (fst counts + passed, snd counts + failed) w1)"

text \<open>
  The script from the loop to its end. \<open>None\<close> is a run that reaches the end of the
  script (exit status 0).
\<close>

definition smokehouse ::
  "env \<Rightarrow> bool \<Rightarrow> bool \<Rightarrow> expectation list \<Rightarrow> world \<Rightarrow> abort option \<times> world" where
  "smokehouse e upd debug expectations w =
     (case forEachExpectation e upd debug expectations (0, 0) w of
        (Inl a, w1) \<Rightarrow> (Some a, w1)
      | (Inr (passingCount, failingCount), w1) \<Rightarrow>
          (let w2 = (if passingCount \<noteq> 0 then say (PassingTotal passingCount) w1 else w1)
           in if failingCount \<noteq> 0
              then (Some (ProcessExit (Some 1)), say (FailingTotal failingCount) w2)
              else (None, w2)))"


section \<open>timings.js: the timing summarizer\<close>

text \<open>
  The file holds two variants of the script: the one whose summary is the function
  \<open>summarize\<close> (first variant), and the one whose summary is the \<open>if (argv.summarize)\<close>
  block (second variant). The two accumulate the samples in the same way and differ in
  the rows they build and in how they sort them.
\<close>

subsection \<open>Accumulating the samples\<close>

text \<open>
  \<open>measuresMap\<close> is a JavaScript \<open>Map\<close>: an association list in insertion order.
  \<open>measureFilter\<close> is \<open>None\<close> for \<open>null\<close>, or the \<open>test\<close> of the regular expression.
  The body of the inner loop, for one \<open>measureName\<close>; \<open>Inr\<close> also when the filter skips
  the name (\<open>continue\<close>).
\<close>

definition addMeasure ::
  "(string \<Rightarrow> bool) option \<Rightarrow> lhrResult \<Rightarrow> (string \<times> number list) list \<Rightarrow> string
     \<Rightarrow> abort + (string \<times> number list) list" where
  "addMeasure measureFilter l measuresMap measureName =
     (if (case measureFilter of None \<Rightarrow> False | Some test \<Rightarrow> \<not> test measureName)
      then Inr measuresMap
      else (let measuresKey = requestedUrl l @ ''@@@'' @ measureName;
                (measures, m1) =
                   (case map_of measuresMap measuresKey of
                      None \<Rightarrow> ([], measuresMap @ [(measuresKey, [])])
                    | Some ms \<Rightarrow> (ms, measuresMap))
            in (case find (\<lambda>m. entry_name m = measureName) (timing l) of
                  None \<Rightarrow> Inl (Thrown ''missing measure'')
                | Some measureEntry \<Rightarrow>
                    Inr (AList.update measuresKey (measures @ [entry_duration measureEntry]) m1))))"

text \<open>The inner loop, over \<open>lhr.timing.entries.map(entry => entry.name)\<close>.\<close>

fun forMeasureNames ::
  "(string \<Rightarrow> bool) option \<Rightarrow> lhrResult \<Rightarrow> (string \<times> number list) list \<Rightarrow> string list
     \<Rightarrow> abort + (string \<times> number list) list" where
  "forMeasureNames f l m [] = Inr m"
| "forMeasureNames f l m (measureName # rest) =
     (case addMeasure f l m measureName of
        Inl a \<Rightarrow> Inl a
      | Inr m1 \<Rightarrow> forMeasureNames f l m1 rest)"


subsection \<open>Statistics\<close>

text \<open>\<open>values.reduce((sum, value) => sum + value)\<close> throws on an empty array.\<close>

definition average :: "number list \<Rightarrow> abort + number" where
  "average vs =
     (case vs of
        [] \<Rightarrow> Inl (Thrown ''TypeError: Reduce of empty array with no initial value'')
      | v # rest \<Rightarrow> Inr (numDiv (foldl numAdd v rest) (Finite (real (length vs)))))"

text \<open>\<open>round\<close>: \<open>Math.round(value * 10) / 10\<close>.\<close>

definition round_tenth :: "number \<Rightarrow> number" where
  "round_tenth v = numDiv (mathRound (numMul v (Finite 10))) (Finite 10)"

text \<open>\<open>Math.min(...vs)\<close> and \<open>Math.max(...vs)\<close> of a non-empty array \<open>v, rest\<close>.\<close>

definition mathMin :: "number \<Rightarrow> number list \<Rightarrow> number" where
  "mathMin v rest = foldl numMin v rest"

definition mathMax :: "number \<Rightarrow> number list \<Rightarrow> number" where
  "mathMax v rest = foldl numMax v rest"

record row =
  row_measure :: string
  row_url :: string
  row_n :: nat
  row_mean :: number
  row_stdev :: number
  row_min :: number
  row_max :: number

text \<open>
  The four values both variants compute for the array \<open>measures\<close> of one key (here
  \<open>samples\<close>): mean, min, max, stdev, in the source's order. \<open>average\<close> throws before \<open>Math.min\<close> is reached on an empty array.
\<close>

definition statistics :: "number list \<Rightarrow> abort + number \<times> number \<times> number \<times> number" where
  "statistics samples =
     (case average samples of
        Inl a \<Rightarrow> Inl a
      | Inr mean \<Rightarrow>
          (let mn = mathMin (hd samples) (tl samples);
               mx = mathMax (hd samples) (tl samples)
           in (case average (map (\<lambda>m. numPow2 (numSub m mean)) samples) of
                 Inl a \<Rightarrow> Inl a
               | Inr v \<Rightarrow> Inr (mean, mn, mx, numSqrt v))))"

text \<open>
  The \<open>map\<close> callback of the first variant. The destructuring \<open>[url, measureName]\<close> takes
  the first two pieces of the key; a key with no second piece would leave \<open>measureName\<close>
  undefined, which the model reports as a thrown error.
\<close>

definition summaryRow :: "string \<times> number list \<Rightarrow> abort + row" where
  "summaryRow kv =
     (case splitStr ''@@@'' (fst kv) of
        u # measureName # others \<Rightarrow>
          (case statistics (snd kv) of
             Inl a \<Rightarrow> Inl a
           | Inr (mean, mn, mx, sd) \<Rightarrow>
               Inr \<lparr>row_measure = measureName, row_url = u, row_n = length (snd kv),
                    row_mean = round_tenth mean, row_stdev = round_tenth sd,
                    row_min = round_tenth mn, row_max = round_tenth mx\<rparr>)
      | _ \<Rightarrow> Inl (Thrown ''TypeError: measure is undefined''))"

text \<open>The \<open>map\<close> callback of the second variant: \<open>min\<close> and \<open>max\<close> are not rounded.\<close>

definition summaryRow2 :: "string \<times> number list \<Rightarrow> abort + row" where
  "summaryRow2 kv =
     (case splitStr ''@@@'' (fst kv) of
        u # measureName # others \<Rightarrow>
          (case statistics (snd kv) of
             Inl a \<Rightarrow> Inl a
           | Inr (mean, mn, mx, sd) \<Rightarrow>
               Inr \<lparr>row_measure = measureName, row_url = u, row_n = length (snd kv),
                    row_mean = round_tenth mean, row_stdev = round_tenth sd,
                    row_min = mn, row_max = mx\<rparr>)
      | _ \<Rightarrow> Inl (Thrown ''TypeError: measureName is undefined''))"


subsection \<open>Sorting the rows\<close>






subsection \<open>summarize\<close>




subsection \<open>Notions used to state what the loops compute\<close>

text \<open>The samples a lookup function holds under a key, none when the key is absent.\<close>

definition samplesOf :: "(string \<Rightarrow> number list option) \<Rightarrow> string \<Rightarrow> number list" where
  "samplesOf M k = (case M k of None \<Rightarrow> [] | Some v \<Rightarrow> v)"

text \<open>A name passes when there is no filter or the filter's \<open>test\<close> holds.\<close>

definition passes :: "(string \<Rightarrow> bool) option \<Rightarrow> string \<Rightarrow> bool" where
  "passes f nm = (case f of None \<Rightarrow> True | Some test \<Rightarrow> test nm)"

text \<open>What one round of the inner loop does to the lookup function of the map.\<close>

definition noteName :: "(string \<Rightarrow> bool) option \<Rightarrow> lhrResult \<Rightarrow> string
    \<Rightarrow> (string \<Rightarrow> number list option) \<Rightarrow> (string \<Rightarrow> number list option)" where
  "noteName f l nm M =
     (if passes f nm
      then (case find (\<lambda>en. entry_name en = nm) (timing l) of
              None \<Rightarrow> M
            | Some first \<Rightarrow> M(requestedUrl l @ ''@@@'' @ nm \<mapsto>
                 samplesOf M (requestedUrl l @ ''@@@'' @ nm) @ [entry_duration first]))
      else M)"


text \<open>
  The sum of a non-empty array taken from the left, the arithmetic mean, and the
  population standard deviation (the mean of the squared deviations, under a square
  root), each operation rounded to a double.
\<close>

definition sumLeft :: "number list \<Rightarrow> number" where
  "sumLeft vs = foldl numAdd (hd vs) (tl vs)"

definition meanOf :: "number list \<Rightarrow> number" where
  "meanOf vs = numDiv (sumLeft vs) (Finite (real (length vs)))"

definition populationStdev :: "number list \<Rightarrow> number" where
  "populationStdev vs = numSqrt (meanOf (map (\<lambda>x. numPow2 (numSub x (meanOf vs))) vs))"




section \<open>Example inputs\<close>

text \<open>
  Concrete surroundings for the worked examples below: a URL parser for URLs without a
  fragment, the MD5 digest at the one string the runner digests,
  and one structured comparison that holds.
\<close>

definition exampleParseUrl :: "string \<Rightarrow> URL option" where
  "exampleParseUrl s =
     (let q = dropWhile (\<lambda>c. c \<noteq> CHR ''?'') s
      in Some \<lparr>beforeSearch = takeWhile (\<lambda>c. c \<noteq> CHR ''?'') s,
               search = (if q = ''?'' then [] else q), hash = []\<rparr>)"

definition exampleEnv :: "(nat \<Rightarrow> string \<Rightarrow> spawnResult) \<Rightarrow> env" where
  "exampleEnv tool =
     \<lparr>spawnSync = tool, LH_SMOKE_DEBUG = False, timestampLength = 29,
      parseUrl = exampleParseUrl,
      md5hex = (\<lambda>s. if s = ''url.search'' then ''792c07c880dfbccb362c847c6c6111c9'' else []),
      dirname = ''/smokehouse'', jsonParse = jsonParseLines,
      compareStructured = (\<lambda>actualLhr actualArtifacts expectedLhr expectedArtifacts. [True])\<rparr>"

definition exampleLhr :: "string \<Rightarrow> runtimeErr option \<Rightarrow> lhrResult" where
  "exampleLhr u err = \<lparr>requestedUrl = u, runtimeError = err, audits = JNull, timing = []\<rparr>"

definition exampleExpectation :: "string \<Rightarrow> expectation" where
  "exampleExpectation u = \<lparr>lhr = exampleLhr u None, artifacts = None, stderr = None\<rparr>"

definition emptyWorld :: world where
  "emptyWorld = \<lparr>spawnCount = 0, files = (\<lambda>p. None), console = []\<rparr>"

text \<open>A tool that ends every run with the given status, error stream and report.\<close>

definition exampleTool ::
  "int option \<Rightarrow> string \<Rightarrow> (lhrResult \<times> json) option \<Rightarrow> nat \<Rightarrow> string \<Rightarrow> spawnResult" where
  "exampleTool st err rep k u =
     \<lparr>spawn_status = st, spawn_stdout = [], spawn_stderr = err, spawn_report = rep\<rparr>"



text \<open>A result file with the given URL and timing entries.\<close>

definition exampleTimedLhr :: "string \<Rightarrow> entry list \<Rightarrow> lhrResult" where
  "exampleTimedLhr u es = \<lparr>requestedUrl = u, runtimeError = None, audits = JNull, timing = es\<rparr>"


section \<open>Properties of the string operations\<close>

lemma splitFrom_nonempty: "splitFrom sep acc s \<noteq> []"
  by (induction sep acc s rule: splitFrom.induct) auto

lemma prefix_drop_rejoin:
  assumes "sep \<noteq> []" "prefix sep (c # cs)"
  shows "sep @ drop (length sep - 1) cs = c # cs"
proof -
  from assms obtain rest where r: "c # cs = sep @ rest" by (auto simp: prefix_def)
  with assms(1) obtain sep' where s: "sep = c # sep'" by (cases sep) auto
  with r have "cs = sep' @ rest" by simp
  with s show ?thesis by simp
qed

lemma joinStr_Cons: "ys \<noteq> [] \<Longrightarrow> joinStr sep (x # ys) = x @ sep @ joinStr sep ys"
  by (cases ys) auto

text \<open>Splitting loses nothing: joining the pieces with the separator gives the text back.\<close>

lemma joinStr_splitFrom: "sep \<noteq> [] \<Longrightarrow> joinStr sep (splitFrom sep acc s) = acc @ s"
proof (induction sep acc s rule: splitFrom.induct)
  case (1 sep acc)
  then show ?case by simp
next
  case (2 sep acc c cs)
  show ?case
  proof (cases "prefix sep (c # cs)")
    case True
    with 2 have "joinStr sep (splitFrom sep [] (drop (length sep - 1) cs)) = drop (length sep - 1) cs"
      by simp
    with True 2(3) prefix_drop_rejoin [of sep c cs] show ?thesis
      by (simp add: joinStr_Cons splitFrom_nonempty)
  next
    case False
    with 2 show ?thesis by simp
  qed
qed

lemma joinStr_splitStr: "sep \<noteq> [] \<Longrightarrow> joinStr sep (splitStr sep s) = s"
  by (simp add: splitStr_def joinStr_splitFrom)

lemma splitFrom_char_free:
  "c \<notin> set acc \<Longrightarrow> l \<in> set (splitFrom [c] acc s) \<Longrightarrow> c \<notin> set l"
proof (induction "[c]" acc s arbitrary: l rule: splitFrom.induct)
  case (1 acc)
  then show ?case by simp
next
  case (2 acc d ds)
  then show ?case by (auto split: if_splits)
qed

lemma splitStr_char_free: "l \<in> set (splitStr [c] s) \<Longrightarrow> c \<notin> set l"
  using splitFrom_char_free [of c "[]" l s] by (simp add: splitStr_def)

lemma containsStr_iff_sublist: "containsStr needle s \<longleftrightarrow> sublist needle s"
  by (induction s) (auto simp: sublist_Cons_right)


section \<open>Properties of the normalization\<close>

lemma beginsWithWeekday_iff: "beginsWithWeekday l \<longleftrightarrow> (\<exists>d \<in> set weekdays. prefix d l)"
  by (simp add: beginsWithWeekday_def list_ex_iff)

lemma hasWarnOrError_iff: "hasWarnOrError l \<longleftrightarrow> sublist '':warn'' l \<or> sublist '':error'' l"
  by (simp add: hasWarnOrError_def containsStr_iff_sublist)

text \<open>
  C4. The raw error stream is cut at the newlines (joining the lines gives it back);
  every line that begins with a weekday name loses its first \<open>timestampLength + 1\<close>
  characters; of the resulting lines, exactly those in which \<open>:warn\<close> or \<open>:error\<close> occurs
  are kept, in their order. So the normalized sequence is a subsequence of the stripped
  lines, and each of its lines contains a marker.
\<close>

theorem normalizeStderr_lines:
  "joinStr [CHR 0x0A] (splitStr [CHR 0x0A] s) = s
   \<and> normalizeStderr t s =
       filter (\<lambda>l. sublist '':warn'' l \<or> sublist '':error'' l)
         (map (\<lambda>l. if (\<exists>d \<in> set weekdays. prefix d l) then drop (t + 1) l else l)
            (splitStr [CHR 0x0A] s))
   \<and> subseq (normalizeStderr t s) (map (stripTimestamp t) (splitStr [CHR 0x0A] s))
   \<and> list_all (\<lambda>l. sublist '':warn'' l \<or> sublist '':error'' l) (normalizeStderr t s)"
  unfolding normalizeStderr_def normalizeLines_def
  apply (intro conjI)
     apply (simp add: joinStr_splitStr)
    apply (simp add: hasWarnOrError_iff[abs_def] stripTimestamp_def[abs_def] beginsWithWeekday_iff)
   apply simp
  apply (simp add: list_all_iff hasWarnOrError_iff)
  done

theorem normalizeStderr_lines_witness:
  "normalizeStderr 29
     (''Mon, 03 Nov 2026 09:21:00 GMT Driver:warn slow page'' @ [CHR 0x0A]
      @ ''status ok'' @ [CHR 0x0A] @ ''Runner:error bad'')
   = [''Driver:warn slow page'', ''Runner:error bad'']"
proof -
  let ?s = "''Mon, 03 Nov 2026 09:21:00 GMT Driver:warn slow page'' @ [CHR 0x0A]
      @ ''status ok'' @ [CHR 0x0A] @ ''Runner:error bad''"
  have "normalizeStderr 29 ?s =
       filter (\<lambda>l. sublist '':warn'' l \<or> sublist '':error'' l)
         (map (\<lambda>l. if (\<exists>d \<in> set weekdays. prefix d l) then drop (29 + 1) l else l)
            (splitStr [CHR 0x0A] ?s))"
    using normalizeStderr_lines [of ?s 29] by (rule conjunct1 [OF conjunct2])
  also have "\<dots> = [''Driver:warn slow page'', ''Runner:error bad'']"
    by (simp add: splitStr_def weekdays_def containsStr_iff_sublist [symmetric])
  finally show ?thesis .
qed

lemma weekday_nonempty: "beginsWithWeekday l \<Longrightarrow> l \<noteq> []"
  by (auto simp: beginsWithWeekday_def weekdays_def)

lemma strip_le: "length (stripTimestamp t l) \<le> length l"
  by (simp add: stripTimestamp_def)

lemma strip_less: "beginsWithWeekday l \<Longrightarrow> length (stripTimestamp t l) < length l"
  using weekday_nonempty [of l] by (cases l) (auto simp: stripTimestamp_def)

lemma total_length_filter: "sum_list (map length (filter P xs)) \<le> sum_list (map length xs)"
  by (induction xs) auto

lemma total_length_strip_le:
  "sum_list (map length (map (stripTimestamp t) xs)) \<le> sum_list (map length xs)"
  by (induction xs) (auto simp: add_mono strip_le)

lemma total_length_strip_less:
  "\<exists>l \<in> set xs. beginsWithWeekday l \<Longrightarrow>
   sum_list (map length (map (stripTimestamp t) xs)) < sum_list (map length xs)"
proof (induction xs)
  case Nil
  then show ?case by simp
next
  case (Cons x xs)
  show ?case
  proof (cases "beginsWithWeekday x")
    case True
    from strip_less [OF True, of t] total_length_strip_le [of t xs]
    show ?thesis by simp
  next
    case False
    with Cons.prems have "\<exists>l \<in> set xs. beginsWithWeekday l" by auto
    from Cons.IH [OF this] strip_le [of t x] show ?thesis by simp
  qed
qed

lemma strip_id: "\<forall>l \<in> set xs. \<not> beginsWithWeekday l \<Longrightarrow> map (stripTimestamp t) xs = xs"
  by (induction xs) (auto simp: stripTimestamp_def)

text \<open>
  C5, as the claim states it, fails: a line whose text after the timestamp begins with a
  weekday name again (here \<open>Sat:warn x\<close>) is kept by the first pass and cut away by the
  second.
\<close>

theorem normalize_idempotent_counterexample:
  "normalizeLines 29 (normalizeLines 29 [''Mon, 03 Nov 2026 09:21:00 GMT Sat:warn x''])
   \<noteq> normalizeLines 29 [''Mon, 03 Nov 2026 09:21:00 GMT Sat:warn x'']"
  by (simp add: normalizeLines_def stripTimestamp_def beginsWithWeekday_def weekdays_def
      hasWarnOrError_def)

text \<open>
  C5, amended. Normalizing an already normalized sequence gives the same sequence exactly
  when none of its lines begins with a weekday name.
\<close>

theorem normalizeLines_idempotent_iff:
  "normalizeLines t (normalizeLines t ls) = normalizeLines t ls
   \<longleftrightarrow> (\<forall>l \<in> set (normalizeLines t ls). \<not> beginsWithWeekday l)"
proof
  assume eq: "normalizeLines t (normalizeLines t ls) = normalizeLines t ls"
  show "\<forall>l \<in> set (normalizeLines t ls). \<not> beginsWithWeekday l"
  proof (rule ccontr)
    assume "\<not> ?thesis"
    then have "\<exists>l \<in> set (normalizeLines t ls). beginsWithWeekday l" by simp
    from total_length_strip_less [OF this, of t]
    have "sum_list (map length (map (stripTimestamp t) (normalizeLines t ls)))
            < sum_list (map length (normalizeLines t ls))" .
    moreover have "sum_list (map length (normalizeLines t (normalizeLines t ls)))
            \<le> sum_list (map length (map (stripTimestamp t) (normalizeLines t ls)))"
      unfolding normalizeLines_def [of t "normalizeLines t ls"] by (rule total_length_filter)
    ultimately have "sum_list (map length (normalizeLines t (normalizeLines t ls)))
            < sum_list (map length (normalizeLines t ls))" by linarith
    with eq show False by simp
  qed
next
  assume "\<forall>l \<in> set (normalizeLines t ls). \<not> beginsWithWeekday l"
  from strip_id [OF this, of t]
  have "normalizeLines t (normalizeLines t ls) = filter hasWarnOrError (normalizeLines t ls)"
    by (simp add: normalizeLines_def[of t "normalizeLines t ls"])
  then show "normalizeLines t (normalizeLines t ls) = normalizeLines t ls"
    by (simp add: normalizeLines_def)
qed

theorem normalizeLines_idempotent_iff_witness:
  "normalizeLines 29 [''Mon, 03 Nov 2026 09:21:00 GMT Driver:warn slow page'', ''status ok'',
       ''Runner:error bad'']
     = [''Driver:warn slow page'', ''Runner:error bad'']
   \<and> normalizeLines 29 (normalizeLines 29
        [''Mon, 03 Nov 2026 09:21:00 GMT Driver:warn slow page'', ''status ok'',
         ''Runner:error bad''])
     = [''Driver:warn slow page'', ''Runner:error bad'']"
proof -
  let ?ls = "[''Mon, 03 Nov 2026 09:21:00 GMT Driver:warn slow page'', ''status ok'',
       ''Runner:error bad'']"
  have v: "normalizeLines 29 ?ls = [''Driver:warn slow page'', ''Runner:error bad'']"
    by (simp add: normalizeLines_def stripTimestamp_def beginsWithWeekday_def weekdays_def
        hasWarnOrError_def)
  have h: "\<forall>l \<in> set (normalizeLines 29 ?ls). \<not> beginsWithWeekday l"
    unfolding v by (simp add: beginsWithWeekday_def weekdays_def)
  have "normalizeLines 29 (normalizeLines 29 ?ls) = normalizeLines 29 ?ls"
    using h by (rule normalizeLines_idempotent_iff [THEN iffD2])
  with v show ?thesis by simp
qed



section \<open>Properties of runLighthouse\<close>

lemma spawnLoop_unfold:
  "spawnLoop e u rc w =
     (let w2 = say (CommandLine u) (if rc > 0 then say RetryingNote w else w);
          res = spawnSync e (spawnCount w2) u;
          w3 = w2\<lparr>spawnCount := spawnCount w2 + 1\<rparr>
      in if spawn_status res = Some PROTOCOL_TIMEOUT_EXIT_CODE \<and> rc + 1 \<le> RETRIES
         then spawnLoop e u (rc + 1) w3 else (res, rc + 1, w3))"
  by (subst spawnLoop.simps) (simp add: Let_def)

lemma say_simps [simp]:
  "spawnCount (say ev w) = spawnCount w"
  "files (say ev w) = files w"
  "console (say ev w) = console w @ [ev]"
  by (simp_all add: say_def)

lemma spawnLoop_props:
  "spawnLoop e u rc w = (r, rc', w') \<Longrightarrow>
     rc < rc'
     \<and> spawnCount w' = spawnCount w + (rc' - rc)
     \<and> files w' = files w
     \<and> r = spawnSync e (spawnCount w + (rc' - rc) - 1) u
     \<and> (\<forall>k < rc' - rc - 1. spawn_status (spawnSync e (spawnCount w + k) u) = Some PROTOCOL_TIMEOUT_EXIT_CODE)
     \<and> console w' = console w @ (if rc > 0 then [RetryingNote] else [])
          @ CommandLine u # concat (replicate (rc' - rc - 1) [RetryingNote, CommandLine u])
     \<and> (rc \<le> RETRIES \<longrightarrow> rc' \<le> RETRIES + 1)
     \<and> (spawn_status r = Some PROTOCOL_TIMEOUT_EXIT_CODE \<longrightarrow> RETRIES < rc')"
proof (induction "RETRIES + 1 - rc" arbitrary: rc w r rc' w')
  case 0
  then have "\<not> rc + 1 \<le> RETRIES" by simp
  with 0(2) show ?case
    by (subst (asm) spawnLoop_unfold) (auto simp: Let_def)
next
  case (Suc n)
  let ?w2 = "say (CommandLine u) (if rc > 0 then say RetryingNote w else w)"
  let ?res = "spawnSync e (spawnCount ?w2) u"
  let ?w3 = "?w2\<lparr>spawnCount := spawnCount ?w2 + 1\<rparr>"
  show ?case
  proof (cases "spawn_status ?res = Some PROTOCOL_TIMEOUT_EXIT_CODE \<and> rc + 1 \<le> RETRIES")
    case False
    with Suc(3) show ?thesis
      by (subst (asm) spawnLoop_unfold) (auto simp: Let_def)
  next
    case True
    with Suc(3) have rec: "spawnLoop e u (rc + 1) ?w3 = (r, rc', w')"
      by (subst (asm) spawnLoop_unfold) (simp add: Let_def)
    from Suc(2) have "n = RETRIES + 1 - (rc + 1)" by simp
    from Suc(1) [OF this rec]
    have ih: "rc + 1 < rc'"
      "spawnCount w' = spawnCount ?w3 + (rc' - (rc + 1))"
      "files w' = files ?w3"
      "r = spawnSync e (spawnCount ?w3 + (rc' - (rc + 1)) - 1) u"
      "\<forall>k < rc' - (rc + 1) - 1. spawn_status (spawnSync e (spawnCount ?w3 + k) u) = Some PROTOCOL_TIMEOUT_EXIT_CODE"
      "console w' = console ?w3 @ [RetryingNote]
          @ CommandLine u # concat (replicate (rc' - (rc + 1) - 1) [RetryingNote, CommandLine u])"
      "rc + 1 \<le> RETRIES \<longrightarrow> rc' \<le> RETRIES + 1"
      "spawn_status r = Some PROTOCOL_TIMEOUT_EXIT_CODE \<longrightarrow> RETRIES < rc'"
      by simp_all
    have c3: "spawnCount ?w3 = spawnCount w + 1" by simp
    have f3: "files ?w3 = files w" by simp
    have k3: "console ?w3 = console w @ (if rc > 0 then [RetryingNote] else []) @ [CommandLine u]"
      by simp
    define d where "d = rc' - rc - 2"
    have d: "rc' - rc - 1 = Suc d" "rc' - (rc + 1) - 1 = d" "rc' - rc = Suc (Suc d)"
      "rc' - (rc + 1) = Suc d"
      using ih(1) by (simp_all add: d_def)
    have all: "\<forall>k < Suc d. spawn_status (spawnSync e (spawnCount w + k) u) = Some PROTOCOL_TIMEOUT_EXIT_CODE"
    proof (intro allI impI)
      fix k assume "k < Suc d"
      show "spawn_status (spawnSync e (spawnCount w + k) u) = Some PROTOCOL_TIMEOUT_EXIT_CODE"
      proof (cases k)
        case 0
        with True show ?thesis by (simp split: if_splits)
      next
        case (Suc j)
        with \<open>k < Suc d\<close> ih(5) d(2) c3 show ?thesis by simp
      qed
    qed
    show ?thesis
      using ih(1,2,3,4,6,7,8) all True unfolding c3 f3 k3 d
      by simp
  qed
qed


lemma runLighthouse_result:
  assumes "spawnLoop e u 0 w = (r, n, w1)"
  shows "fst (runLighthouse e u dbg w) =
     (if spawn_status r = Some PROTOCOL_TIMEOUT_EXIT_CODE then Inl (ProcessExit (Some 1))
      else (case spawn_report r of
              None \<Rightarrow> Inl (ProcessExit (spawn_status r))
            | Some (l, arts) \<Rightarrow>
                if truthyExit (spawn_status r) \<noteq> (runtimeError l \<noteq> None)
                then Inl (ProcessExit (Some 1))
                else Inr \<lparr>result_lhr = l, result_artifacts = arts,
                          result_stderr = normalizeStderr (timestampLength e) (spawn_stderr r)\<rparr>))"
  using assms by (auto simp add: runLighthouse_def Let_def split: option.split)

lemma runLighthouse_world:
  assumes "spawnLoop e u 0 w = (r, n, w1)"
  shows "spawnCount (snd (runLighthouse e u dbg w)) = spawnCount w1
         \<and> files (snd (runLighthouse e u dbg w)) = files w1"
  using assms by (simp add: runLighthouse_def Let_def split: option.split)

lemma spawnLoop_exhausted:
  assumes "\<forall>k<4. spawn_status (spawnSync e (spawnCount w + k) u) = Some PROTOCOL_TIMEOUT_EXIT_CODE"
  shows "\<exists>r w1. spawnLoop e u 0 w = (r, 4, w1)
           \<and> spawn_status r = Some PROTOCOL_TIMEOUT_EXIT_CODE"
proof -
  obtain r n w1 where s: "spawnLoop e u 0 w = (r, n, w1)" by (cases "spawnLoop e u 0 w") auto
  from spawnLoop_props [OF s]
  have p: "0 < n" "r = spawnSync e (spawnCount w + (n - 0) - 1) u" "n \<le> RETRIES + 1"
    "spawn_status r = Some PROTOCOL_TIMEOUT_EXIT_CODE \<longrightarrow> RETRIES < n"
    by simp_all
  from p(1,3) have "n - 1 < 4" by (simp add: RETRIES_def)
  have "spawnCount w + (n - 0) - 1 = spawnCount w + (n - 1)" using p(1) by simp
  with assms p(2) \<open>n - 1 < 4\<close> have t: "spawn_status r = Some PROTOCOL_TIMEOUT_EXIT_CODE"
    by simp
  with p(3,4) have "n = 4" by (simp add: RETRIES_def)
  with s t show ?thesis by blast
qed

lemma forEachExpectation_append:
  "forEachExpectation e upd dbg (pre @ post) c w =
     (case forEachExpectation e upd dbg pre c w of
        (Inl a, w1) \<Rightarrow> (Inl a, w1)
      | (Inr c1, w1) \<Rightarrow> forEachExpectation e upd dbg post c1 w1)"
  by (induction pre arbitrary: c w) (auto split: prod.splits sum.splits)

lemma forEachExpectation_abort:
  assumes "fst (runLighthouse e (requestedUrl (lhr x)) dbg (say (DoingRun (requestedUrl (lhr x))) w)) = Inl a"
  shows "forEachExpectation e upd dbg (x # rest) c w =
           (Inl a, snd (runLighthouse e (requestedUrl (lhr x)) dbg (say (DoingRun (requestedUrl (lhr x))) w)))"
  using assms
  by (cases "runLighthouse e (requestedUrl (lhr x)) dbg (say (DoingRun (requestedUrl (lhr x))) w)")
     (simp add: processExpectation_def)


lemma smokehouse_abort_at:
  assumes "forEachExpectation e upd dbg pre (0, 0) w0 = (Inr c, w)"
    and "fst (runLighthouse e (requestedUrl (lhr x)) dbg (say (DoingRun (requestedUrl (lhr x))) w)) = Inl a"
  shows "smokehouse e upd dbg (pre @ x # rest) w0 =
           (Some a, snd (runLighthouse e (requestedUrl (lhr x)) dbg (say (DoingRun (requestedUrl (lhr x))) w)))"
  using assms(1) forEachExpectation_abort [OF assms(2), of upd rest c]
  by (simp add: smokehouse_def forEachExpectation_append)

text \<open>
  C3. The tool is run at least once and at most four times for an expectation; every
  attempt but the last ended with the timeout code 67, a run that stops before the fourth
  attempt did not end with 67, and the retry message is logged before each attempt after
  the first. When all four attempts end with code 67, the whole run ends with process
  exit status 1 after exactly these four attempts, whatever expectations follow.
\<close>

theorem timeout_retries:
  "(case spawnLoop e u 0 w of
      (r, attempts, w1) \<Rightarrow>
        1 \<le> attempts \<and> attempts \<le> 4
        \<and> spawnCount w1 = spawnCount w + attempts
        \<and> r = spawnSync e (spawnCount w + attempts - 1) u
        \<and> (\<forall>k < attempts - 1.
              spawn_status (spawnSync e (spawnCount w + k) u) = Some 67)
        \<and> (attempts < 4 \<longrightarrow> spawn_status r \<noteq> Some 67)
        \<and> console w1 = console w @ CommandLine u
              # concat (replicate (attempts - 1) [RetryingNote, CommandLine u]))
   \<and> (forEachExpectation e upd dbg pre (0, 0) w0 = (Inr c, w')
        \<and> (\<forall>k < 4. spawn_status (spawnSync e (spawnCount w' + k) (requestedUrl (lhr x))) = Some 67)
      \<longrightarrow> fst (smokehouse e upd dbg (pre @ x # rest) w0) = Some (ProcessExit (Some 1))
          \<and> spawnCount (snd (smokehouse e upd dbg (pre @ x # rest) w0)) = spawnCount w' + 4)"
proof (intro conjI impI)
  obtain r n w1 where s: "spawnLoop e u 0 w = (r, n, w1)" by (cases "spawnLoop e u 0 w") auto
  from spawnLoop_props [OF s]
  show "case spawnLoop e u 0 w of
      (r, attempts, w1) \<Rightarrow>
        1 \<le> attempts \<and> attempts \<le> 4
        \<and> spawnCount w1 = spawnCount w + attempts
        \<and> r = spawnSync e (spawnCount w + attempts - 1) u
        \<and> (\<forall>k < attempts - 1.
              spawn_status (spawnSync e (spawnCount w + k) u) = Some 67)
        \<and> (attempts < 4 \<longrightarrow> spawn_status r \<noteq> Some 67)
        \<and> console w1 = console w @ CommandLine u
              # concat (replicate (attempts - 1) [RetryingNote, CommandLine u])"
    unfolding s by (auto simp: RETRIES_def PROTOCOL_TIMEOUT_EXIT_CODE_def)
next
  let ?u = "requestedUrl (lhr x)"
  let ?w = "say (DoingRun ?u) w'"
  assume a: "forEachExpectation e upd dbg pre (0, 0) w0 = (Inr c, w')
        \<and> (\<forall>k < 4. spawn_status (spawnSync e (spawnCount w' + k) ?u) = Some 67)"
  then have "\<forall>k<4. spawn_status (spawnSync e (spawnCount ?w + k) ?u) = Some PROTOCOL_TIMEOUT_EXIT_CODE"
    by (simp add: PROTOCOL_TIMEOUT_EXIT_CODE_def)
  from spawnLoop_exhausted [OF this]
  obtain r w1 where s: "spawnLoop e ?u 0 ?w = (r, 4, w1)"
    and t: "spawn_status r = Some PROTOCOL_TIMEOUT_EXIT_CODE" by blast
  from runLighthouse_result [OF s, of dbg] t
  have ab: "fst (runLighthouse e ?u dbg ?w) = Inl (ProcessExit (Some 1))" by simp
  from spawnLoop_props [OF s] have "spawnCount w1 = spawnCount w' + 4" by simp
  with runLighthouse_world [OF s, of dbg]
  have sc: "spawnCount (snd (runLighthouse e ?u dbg ?w)) = spawnCount w' + 4" by simp
  from a have f: "forEachExpectation e upd dbg pre (0, 0) w0 = (Inr c, w')" by simp
  from smokehouse_abort_at [OF f ab, of rest] sc
  show "fst (smokehouse e upd dbg (pre @ x # rest) w0) = Some (ProcessExit (Some 1))"
    and "spawnCount (snd (smokehouse e upd dbg (pre @ x # rest) w0)) = spawnCount w' + 4"
    by simp_all
qed

theorem timeout_retries_witness:
  "fst (smokehouse (exampleEnv (exampleTool (Some 67) [] None)) False False
          ([] @ exampleExpectation ''http://localhost/a'' # [exampleExpectation ''http://localhost/b''])
          emptyWorld)
     = Some (ProcessExit (Some 1))
   \<and> spawnCount (snd (smokehouse (exampleEnv (exampleTool (Some 67) [] None)) False False
          ([] @ exampleExpectation ''http://localhost/a'' # [exampleExpectation ''http://localhost/b''])
          emptyWorld))
     = spawnCount emptyWorld + 4"
proof -
  let ?e = "exampleEnv (exampleTool (Some 67) [] None)"
  have h: "forEachExpectation ?e False False [] (0, 0) emptyWorld = (Inr (0, 0), emptyWorld)
        \<and> (\<forall>k < 4. spawn_status (spawnSync ?e (spawnCount emptyWorld + k)
               (requestedUrl (lhr (exampleExpectation ''http://localhost/a'')))) = Some 67)"
    by (simp add: exampleEnv_def exampleTool_def)
  show ?thesis
    using timeout_retries [THEN conjunct2, rule_format, OF h] by blast
qed


lemma spawnLoop_once:
  "spawn_status (spawnSync e (spawnCount w) u) \<noteq> Some PROTOCOL_TIMEOUT_EXIT_CODE \<Longrightarrow>
   spawnLoop e u 0 w =
     (spawnSync e (spawnCount w) u, 1, (say (CommandLine u) w)\<lparr>spawnCount := spawnCount w + 1\<rparr>)"
  by (subst spawnLoop_unfold) (simp add: Let_def)


section \<open>Properties of the snapshot handling\<close>

lemma runLighthouse_files: "files (snd (runLighthouse e u dbg w)) = files w"
proof -
  obtain r n w1 where s: "spawnLoop e u 0 w = (r, n, w1)" by (cases "spawnLoop e u 0 w") auto
  from runLighthouse_world [OF s, of dbg] spawnLoop_props [OF s] show ?thesis by simp
qed

lemma runLighthouse_stderr:
  assumes "fst (runLighthouse e u dbg w) = Inr results"
  shows "result_stderr results
           = normalizeStderr (timestampLength e) (spawn_stderr (fst (spawnLoop e u 0 w)))"
proof -
  obtain r n w1 where s: "spawnLoop e u 0 w = (r, n, w1)" by (cases "spawnLoop e u 0 w") auto
  from runLighthouse_result [OF s, of dbg] assms have
    "Inr results = (if spawn_status r = Some PROTOCOL_TIMEOUT_EXIT_CODE then Inl (ProcessExit (Some 1))
      else (case spawn_report r of
              None \<Rightarrow> Inl (ProcessExit (spawn_status r))
            | Some (l, arts) \<Rightarrow>
                if truthyExit (spawn_status r) \<noteq> (runtimeError l \<noteq> None)
                then Inl (ProcessExit (Some 1))
                else Inr \<lparr>result_lhr = l, result_artifacts = arts,
                          result_stderr = normalizeStderr (timestampLength e) (spawn_stderr r)\<rparr>))"
    by simp
  then have "result_stderr results = normalizeStderr (timestampLength e) (spawn_stderr r)"
    by (auto split: if_splits option.splits)
  with s show ?thesis by simp
qed

text \<open>
  C1. The path is a function of the parsed URL, so the same URL gives the same path on
  every run. It does not tell query strings apart: the digest is taken of the literal
  \<open>'url.search'\<close>, so two URLs with the same base and any two non-empty query strings
  get the same path.
\<close>

theorem snapshotPath_ignores_query:
  "search u \<noteq> [] \<Longrightarrow> search v \<noteq> [] \<Longrightarrow> beforeSearch u = beforeSearch v \<Longrightarrow> hash u = hash v
   \<Longrightarrow> snapshotPathOf md5 dir u = snapshotPathOf md5 dir v"
  by (simp add: snapshotPathOf_def href_def Let_def)

theorem snapshotPath_ignores_query_witness:
  "getSnapshotPath (exampleEnv (exampleTool (Some 0) [] None))
      (exampleExpectation ''http://localhost:10200/page.html?a=1'')
     = Inr ''/smokehouse/snapshots/http___localhost_10200_page_html_792c07.json''
   \<and> getSnapshotPath (exampleEnv (exampleTool (Some 0) [] None))
      (exampleExpectation ''http://localhost:10200/page.html?b=2'')
     = Inr ''/smokehouse/snapshots/http___localhost_10200_page_html_792c07.json''"
proof -
  let ?e = "exampleEnv (exampleTool (Some 0) [] None)"
  let ?u = "\<lparr>beforeSearch = ''http://localhost:10200/page.html'', search = ''?a=1'', hash = []\<rparr>"
  let ?v = "\<lparr>beforeSearch = ''http://localhost:10200/page.html'', search = ''?b=2'', hash = []\<rparr>"
  have pu: "parseUrl ?e ''http://localhost:10200/page.html?a=1'' = Some ?u"
    by (simp add: exampleEnv_def exampleParseUrl_def)
  have pv: "parseUrl ?e ''http://localhost:10200/page.html?b=2'' = Some ?v"
    by (simp add: exampleEnv_def exampleParseUrl_def)
  have eq: "snapshotPathOf (md5hex ?e) (dirname ?e) ?u = snapshotPathOf (md5hex ?e) (dirname ?e) ?v"
    by (rule snapshotPath_ignores_query) simp_all
  have v: "snapshotPathOf (md5hex ?e) (dirname ?e) ?v
             = ''/smokehouse/snapshots/http___localhost_10200_page_html_792c07.json''"
    by (simp add: snapshotPathOf_def href_def Let_def exampleEnv_def escapeNonAlnum_def isAlnum_def)
  from pu pv eq v show ?thesis
    by (simp add: getSnapshotPath_def exampleExpectation_def exampleLhr_def)
qed


lemma loadSnapshot_update:
  assumes "stderr x = None" "getSnapshotPath e x = Inr p"
  shows "loadSnapshot e True x results w
           = (Inr (x\<lparr>stderr := Some (result_stderr results)\<rparr>),
              (say (if files w p = None then CreatedSnapshot p else UpdatedSnapshot p) w)
                \<lparr>files := (files w)(p \<mapsto> jsonStringifyLines (result_stderr results))\<rparr>)"
  using assms by (cases "files w p") (simp_all add: loadSnapshot_def Let_def)

lemma loadSnapshot_missing:
  assumes "stderr x = None" "getSnapshotPath e x = Inr p" "files w p = None"
  shows "loadSnapshot e False x results w = (Inr x, say (MissingSnapshot p) w)"
  using assms by (simp add: loadSnapshot_def)

lemma processExpectation_returned:
  assumes "runLighthouse e (requestedUrl (lhr x)) dbg (say (DoingRun (requestedUrl (lhr x))) w)
             = (Inr results, w0)"
    and "loadSnapshot e upd x results w0 = (Inr x1, w1)"
  shows "processExpectation e upd dbg x w
           = (Inr (x1, fst (report (collateResults e results x1)),
                   snd (report (collateResults e results x1))),
              say (Asserting (requestedUrl (lhr x1))) w1)"
  using assms by (simp add: processExpectation_def Let_def)

lemma hexVal_hexDigit: "k < 16 \<Longrightarrow> hexVal (hexDigit k) = Some k"
proof -
  have "\<forall>k \<in> set [0..<16]. hexVal (hexDigit k) = Some k" by code_simp
  then show "k < 16 \<Longrightarrow> hexVal (hexDigit k) = Some k" by simp
qed

lemma char_of_codes:
  "char_of (0x22::nat) = CHR 0x22" "char_of (0x5C::nat) = CHR 0x5C"
  "char_of (0x08::nat) = CHR 0x08" "char_of (0x09::nat) = CHR 0x09"
  "char_of (0x0A::nat) = CHR 0x0A" "char_of (0x0C::nat) = CHR 0x0C"
  "char_of (0x0D::nat) = CHR 0x0D"
  by code_simp+

lemma stringBody_quoteChar: "stringBody (quoteChar c @ t) = consTo c (stringBody t)"
proof -
  define k where "k = (of_char c :: nat)"
  have c: "c = char_of k" unfolding k_def by simp
  have k256: "k < 256" unfolding k_def by simp
  consider "k = 0x22" | "k = 0x5C" | "k = 0x08" | "k = 0x09" | "k = 0x0A" | "k = 0x0C" | "k = 0x0D"
    | "k < 0x20" "k \<noteq> 0x08" "k \<noteq> 0x09" "k \<noteq> 0x0A" "k \<noteq> 0x0C" "k \<noteq> 0x0D"
    | "0x20 \<le> k" "k \<noteq> 0x22" "k \<noteq> 0x5C"
    by linarith
  then show ?thesis
  proof cases
    case 1
    then show ?thesis unfolding c by (simp add: quoteChar_def unescapeChar_def char_of_codes)
  next
    case 2
    then show ?thesis unfolding c by (simp add: quoteChar_def unescapeChar_def char_of_codes)
  next
    case 3
    then show ?thesis unfolding c by (simp add: quoteChar_def unescapeChar_def char_of_codes)
  next
    case 4
    then show ?thesis unfolding c by (simp add: quoteChar_def unescapeChar_def char_of_codes)
  next
    case 5
    then show ?thesis unfolding c by (simp add: quoteChar_def unescapeChar_def char_of_codes)
  next
    case 6
    then show ?thesis unfolding c by (simp add: quoteChar_def unescapeChar_def char_of_codes)
  next
    case 7
    then show ?thesis unfolding c by (simp add: quoteChar_def unescapeChar_def char_of_codes)
  next
    case 8
    have q: "quoteChar c = [CHR 0x5C, CHR ''u'', CHR ''0'', CHR ''0'',
                                hexDigit (k div 16), hexDigit (k mod 16)]"
      using 8 by (simp add: quoteChar_def k_def [symmetric])
    have h0: "hexVal CHR ''0'' = Some 0" by (simp add: hexVal_def)
    have h1: "hexVal (hexDigit (k div 16)) = Some (k div 16)"
      by (rule hexVal_hexDigit) (use 8(1) in simp)
    have h2: "hexVal (hexDigit (k mod 16)) = Some (k mod 16)"
      by (rule hexVal_hexDigit) simp
    have "char_of (k div 16 * 16 + k mod 16) = c" unfolding c by simp
    then show ?thesis unfolding q by (simp add: h0 h1 h2)
  next
    case 9
    have "c \<noteq> CHR 0x22" using 9(2) unfolding k_def by auto
    moreover have "c \<noteq> CHR 0x5C" using 9(3) unfolding k_def by auto
    moreover have "quoteChar c = [c]" using 9 by (simp add: quoteChar_def k_def [symmetric])
    moreover have "\<not> (of_char c :: nat) < 0x20" using 9(1) unfolding k_def by simp
    ultimately show ?thesis by simp
  qed
qed

lemma stringBody_quoted:
  "stringBody (concat (map quoteChar s) @ CHR 0x22 # rest) = Some (s, rest)"
  by (induction s) (simp_all add: stringBody_quoteChar consTo_def del: stringBody.simps(2), simp)

lemma skipWs_simps [simp]:
  "skipWs (CHR '' '' # s) = skipWs s"
  "skipWs (CHR 0x0A # s) = skipWs s"
  "skipWs (CHR 0x22 # s) = CHR 0x22 # s"
  "skipWs (CHR '','' # s) = CHR '','' # s"
  "skipWs (CHR '']'' # s) = CHR '']'' # s"
  "skipWs (CHR ''['' # s) = CHR ''['' # s"
  "skipWs [] = []"
  by (simp_all add: skipWs_def isJsonWs_def)

lemma parseElements_quoted:
  "parseElements (quoteJson l @ CHR '','' # t)
     = (case parseElements (skipWs t) of None \<Rightarrow> None | Some (strs, r) \<Rightarrow> Some (l # strs, r))"
  "parseElements (quoteJson l @ CHR 0x0A # CHR '']'' # t) = Some ([l], t)"
  by (subst parseElements.simps, simp add: quoteJson_def stringBody_quoted)+

lemma parseElements_joined:
  "ls \<noteq> [] \<Longrightarrow>
   parseElements (skipWs (joinStr ('','' @ [CHR 0x0A]) (map (\<lambda>l. ''  '' @ quoteJson l) ls)
                          @ CHR 0x0A # CHR '']'' # t)) = Some (ls, t)"
proof (induction ls rule: list_nonempty_induct)
  case (single l)
  have "skipWs (quoteJson l @ CHR 0x0A # CHR '']'' # t) = quoteJson l @ CHR 0x0A # CHR '']'' # t"
    by (simp add: quoteJson_def)
  then show ?case by (simp add: parseElements_quoted)
next
  case (cons l ls)
  then obtain l' ls' where ls: "ls = l' # ls'" by (cases ls) auto
  have q: "\<And>r. skipWs (quoteJson l @ r) = quoteJson l @ r" by (simp add: quoteJson_def)
  have "parseElements (skipWs (joinStr ('','' @ [CHR 0x0A]) (map (\<lambda>l. ''  '' @ quoteJson l) (l # ls))
                          @ CHR 0x0A # CHR '']'' # t))
        = parseElements (quoteJson l @ CHR '','' # CHR 0x0A #
            (joinStr ('','' @ [CHR 0x0A]) (map (\<lambda>l. ''  '' @ quoteJson l) ls)
                          @ CHR 0x0A # CHR '']'' # t))"
    unfolding ls using q by simp
  also have "\<dots> = Some (l # ls, t)"
    by (simp only: parseElements_quoted skipWs_simps cons.IH) simp
  finally show ?case .
qed

lemma jsonParse_stringify: "jsonParseLines (jsonStringifyLines ls) = Some ls"
proof (cases "ls = []")
  case True
  then show ?thesis by (simp add: jsonStringifyLines_def jsonParseLines_def)
next
  case False
  then obtain l ls' where ls: "ls = l # ls'" by (cases ls) auto
  let ?b = "joinStr ('','' @ [CHR 0x0A]) (map (\<lambda>l. ''  '' @ quoteJson l) ls) @ CHR 0x0A # CHR '']'' # []"
  have "\<exists>r. skipWs ?b = CHR 0x22 # r"
    unfolding ls by (cases ls') (simp_all add: quoteJson_def)
  then obtain r where r: "skipWs ?b = CHR 0x22 # r" by blast
  from parseElements_joined [OF False, of "[]"] r
  have p: "parseElements (CHR 0x22 # r) = Some (ls, [])" by simp
  have "jsonStringifyLines ls = CHR ''['' # CHR 0x0A # ?b"
    using False by (simp add: jsonStringifyLines_def)
  then show ?thesis using r p by (simp add: jsonParseLines_def)
qed


text \<open>
  C6. In update mode, for an expectation whose run returned and whose \<open>stderr\<close> was not
  preset, whether or not a snapshot file existed: afterwards the snapshot file holds
  \<open>JSON.stringify\<close> of the run's normalized error lines, a text that \<open>JSON.parse\<close> reads
  back as exactly these lines; no other file has changed; and the expectation handed to
  the collation step carries those same lines as its \<open>stderr\<close>.
\<close>

theorem update_mode_writes_snapshot:
  assumes "fst (runLighthouse e (requestedUrl (lhr x)) dbg (say (DoingRun (requestedUrl (lhr x))) w))
             = Inr results"
    and "stderr x = None"
    and "getSnapshotPath e x = Inr p"
  shows "\<exists>passed failed w1.
           processExpectation e True dbg x w
             = (Inr (x\<lparr>stderr := Some (result_stderr results)\<rparr>, passed, failed), w1)
           \<and> (passed, failed)
               = report (collateResults e results (x\<lparr>stderr := Some (result_stderr results)\<rparr>))
           \<and> files w1 p = Some (jsonStringifyLines (result_stderr results))
           \<and> jsonParseLines (jsonStringifyLines (result_stderr results))
               = Some (result_stderr results)
           \<and> (\<forall>q. q \<noteq> p \<longrightarrow> files w1 q = files w q)
           \<and> result_stderr results
               = normalizeStderr (timestampLength e)
                   (spawn_stderr (fst (spawnLoop e (requestedUrl (lhr x)) 0
                      (say (DoingRun (requestedUrl (lhr x))) w))))"
proof -
  let ?u = "requestedUrl (lhr x)"
  let ?x1 = "x\<lparr>stderr := Some (result_stderr results)\<rparr>"
  obtain rr w0 where run0: "runLighthouse e ?u dbg (say (DoingRun ?u) w) = (rr, w0)"
    by (cases "runLighthouse e ?u dbg (say (DoingRun ?u) w)") auto
  with assms(1) have run: "runLighthouse e ?u dbg (say (DoingRun ?u) w) = (Inr results, w0)"
    by simp
  from runLighthouse_files [of e ?u dbg "say (DoingRun ?u) w"] run
  have f0: "files w0 = files w" by simp
  let ?w1 = "(say (if files w0 p = None then CreatedSnapshot p else UpdatedSnapshot p) w0)
                \<lparr>files := (files w0)(p \<mapsto> jsonStringifyLines (result_stderr results))\<rparr>"
  let ?w2 = "say (Asserting (requestedUrl (lhr ?x1))) ?w1"
  have pe: "processExpectation e True dbg x w
           = (Inr (?x1, fst (report (collateResults e results ?x1)),
                   snd (report (collateResults e results ?x1))), ?w2)"
    by (rule processExpectation_returned [OF run loadSnapshot_update [OF assms(2,3)]])
  have a: "(fst (report (collateResults e results ?x1)), snd (report (collateResults e results ?x1)))
             = report (collateResults e results ?x1)" by simp
  have b: "files ?w2 p = Some (jsonStringifyLines (result_stderr results))" by simp
  have c: "\<forall>q. q \<noteq> p \<longrightarrow> files ?w2 q = files w q" by (simp add: f0)
  have d: "jsonParseLines (jsonStringifyLines (result_stderr results)) = Some (result_stderr results)"
    by (rule jsonParse_stringify)
  show ?thesis
    by (intro exI [of _ "fst (report (collateResults e results ?x1))"]
        exI [of _ "snd (report (collateResults e results ?x1))"] exI [of _ ?w2]
        conjI pe a b c d runLighthouse_stderr [OF assms(1)])
qed

text \<open>
  C7. With no snapshot file and update mode off, for an expectation whose run returned:
  the expectation keeps its \<open>stderr\<close> unset, so the collation holds the structured
  comparisons only and the counts come from these; no file is written; the note about the
  missing snapshot is printed; and the loop goes on with the next expectation.
\<close>

theorem missing_snapshot_skipped:
  assumes "fst (runLighthouse e (requestedUrl (lhr x)) dbg (say (DoingRun (requestedUrl (lhr x))) w))
             = Inr results"
    and "stderr x = None"
    and "getSnapshotPath e x = Inr p"
    and "files w p = None"
  shows "\<exists>passed failed w1.
           processExpectation e False dbg x w = (Inr (x, passed, failed), w1)
           \<and> collateResults e results x
               = compareStructured e (result_lhr results) (result_artifacts results)
                   (lhr x) (artifacts x)
           \<and> (passed, failed) = report (collateResults e results x)
           \<and> files w1 = files w
           \<and> console w1
               = console (snd (runLighthouse e (requestedUrl (lhr x)) dbg
                                 (say (DoingRun (requestedUrl (lhr x))) w)))
                 @ [MissingSnapshot p, Asserting (requestedUrl (lhr x))]
           \<and> forEachExpectation e False dbg (x # rest) c w
               = forEachExpectation e False dbg rest (fst c + passed, snd c + failed) w1"
proof -
  let ?u = "requestedUrl (lhr x)"
  obtain rr w0 where run0: "runLighthouse e ?u dbg (say (DoingRun ?u) w) = (rr, w0)"
    by (cases "runLighthouse e ?u dbg (say (DoingRun ?u) w)") auto
  with assms(1) have run: "runLighthouse e ?u dbg (say (DoingRun ?u) w) = (Inr results, w0)"
    by simp
  from runLighthouse_files [of e ?u dbg "say (DoingRun ?u) w"] run
  have f0: "files w0 = files w" by simp
  with assms(4) have "files w0 p = None" by simp
  note ls = loadSnapshot_missing [OF assms(2,3) this, of results]
  let ?w2 = "say (Asserting ?u) (say (MissingSnapshot p) w0)"
  let ?counts = "report (collateResults e results x)"
  have pe: "processExpectation e False dbg x w = (Inr (x, fst ?counts, snd ?counts), ?w2)"
    by (rule processExpectation_returned [OF run ls])
  have a: "collateResults e results x
               = compareStructured e (result_lhr results) (result_artifacts results)
                   (lhr x) (artifacts x)"
    using assms(2) by (simp add: collateResults_def)
  have b: "(fst ?counts, snd ?counts) = ?counts" by simp
  have c: "files ?w2 = files w" by (simp add: f0)
  have d: "console ?w2 = console (snd (runLighthouse e ?u dbg (say (DoingRun ?u) w)))
                 @ [MissingSnapshot p, Asserting ?u]"
    by (simp add: run)
  have f: "forEachExpectation e False dbg (x # rest) c w
               = forEachExpectation e False dbg rest (fst c + fst ?counts, snd c + snd ?counts) ?w2"
    by (simp add: pe split: prod.split)
  from pe a b c d f show ?thesis by blast
qed


lemma example_run:
  assumes "st \<noteq> Some 67" and "truthyExit st = (runtimeError l \<noteq> None)"
  shows "fst (runLighthouse (exampleEnv (exampleTool st err (Some (l, a)))) u False w)
           = Inr \<lparr>result_lhr = l, result_artifacts = a, result_stderr = normalizeStderr 29 err\<rparr>"
proof -
  let ?e = "exampleEnv (exampleTool st err (Some (l, a)))"
  have r: "spawnSync ?e (spawnCount w) u = exampleTool st err (Some (l, a)) (spawnCount w) u"
    by (simp add: exampleEnv_def)
  have "spawn_status (spawnSync ?e (spawnCount w) u) \<noteq> Some PROTOCOL_TIMEOUT_EXIT_CODE"
    using assms(1) by (simp add: r exampleTool_def PROTOCOL_TIMEOUT_EXIT_CODE_def)
  from runLighthouse_result [OF spawnLoop_once [OF this], of False] assms
  show ?thesis
    by (simp add: r exampleTool_def PROTOCOL_TIMEOUT_EXIT_CODE_def) (simp add: exampleEnv_def)
qed

lemma example_path:
  "getSnapshotPath (exampleEnv tool) (exampleExpectation ''http://localhost/a'')
     = Inr ''/smokehouse/snapshots/http___localhost_a_.json''"
  by (simp add: getSnapshotPath_def exampleEnv_def exampleExpectation_def exampleLhr_def
      exampleParseUrl_def snapshotPathOf_def href_def Let_def escapeNonAlnum_def isAlnum_def)

lemma example_warnings:
  "normalizeStderr 29
     (''Mon, 03 Nov 2026 09:21:00 GMT Driver:warn bad '' @ [CHR 0x22] @ ''x'' @ [CHR 0x22]
        @ '' in C:'' @ [CHR 0x5C] @ ''tmp'' @ [CHR 0x0A] @ ''status ok'' @ [CHR 0x0A]
        @ ''Audit:error failed'')
     = [''Driver:warn bad '' @ [CHR 0x22] @ ''x'' @ [CHR 0x22] @ '' in C:'' @ [CHR 0x5C] @ ''tmp'',
        ''Audit:error failed'']"
  by (simp add: normalizeStderr_def normalizeLines_def splitStr_def stripTimestamp_def
      beginsWithWeekday_def weekdays_def hasWarnOrError_def)

lemma example_warnings_text:
  "jsonStringifyLines
     [''Driver:warn bad '' @ [CHR 0x22] @ ''x'' @ [CHR 0x22] @ '' in C:'' @ [CHR 0x5C] @ ''tmp'',
      ''Audit:error failed'']
     = ''['' @ [CHR 0x0A] @ ''  '' @ [CHR 0x22] @ ''Driver:warn bad '' @ [CHR 0x5C, CHR 0x22]
       @ ''x'' @ [CHR 0x5C, CHR 0x22] @ '' in C:'' @ [CHR 0x5C, CHR 0x5C] @ ''tmp'' @ [CHR 0x22]
       @ '','' @ [CHR 0x0A] @ ''  '' @ [CHR 0x22] @ ''Audit:error failed'' @ [CHR 0x22]
       @ [CHR 0x0A] @ '']''"
  by (simp add: jsonStringifyLines_def quoteJson_def quoteChar_def)

text \<open>
  An instance of C6: the tool writes two warning lines, one with quotation marks and a
  backslash, and a line that is no warning. Whether the snapshot file held another array
  or did not exist, it holds afterwards the two lines as a JSON array, one element per
  line, indented by two spaces, the quotation marks and the backslash escaped.
\<close>

theorem update_mode_writes_snapshot_witness:
  "files (snd (processExpectation
        (exampleEnv (exampleTool (Some 0)
           (''Mon, 03 Nov 2026 09:21:00 GMT Driver:warn bad '' @ [CHR 0x22] @ ''x'' @ [CHR 0x22]
              @ '' in C:'' @ [CHR 0x5C] @ ''tmp'' @ [CHR 0x0A] @ ''status ok'' @ [CHR 0x0A]
              @ ''Audit:error failed'')
           (Some (exampleLhr ''http://localhost/a'' None, JNull))))
        True False (exampleExpectation ''http://localhost/a'')
        (emptyWorld\<lparr>files := (\<lambda>q. if q = ''/smokehouse/snapshots/http___localhost_a_.json''
                                    then Some (''['' @ [CHR 0x22] @ ''stale'' @ [CHR 0x22] @ '']'')
                                    else None)\<rparr>)))
     ''/smokehouse/snapshots/http___localhost_a_.json''
     = Some (''['' @ [CHR 0x0A] @ ''  '' @ [CHR 0x22] @ ''Driver:warn bad '' @ [CHR 0x5C, CHR 0x22]
       @ ''x'' @ [CHR 0x5C, CHR 0x22] @ '' in C:'' @ [CHR 0x5C, CHR 0x5C] @ ''tmp'' @ [CHR 0x22]
       @ '','' @ [CHR 0x0A] @ ''  '' @ [CHR 0x22] @ ''Audit:error failed'' @ [CHR 0x22]
       @ [CHR 0x0A] @ '']'')
   \<and> files (snd (processExpectation
        (exampleEnv (exampleTool (Some 0)
           (''Mon, 03 Nov 2026 09:21:00 GMT Driver:warn bad '' @ [CHR 0x22] @ ''x'' @ [CHR 0x22]
              @ '' in C:'' @ [CHR 0x5C] @ ''tmp'' @ [CHR 0x0A] @ ''status ok'' @ [CHR 0x0A]
              @ ''Audit:error failed'')
           (Some (exampleLhr ''http://localhost/a'' None, JNull))))
        True False (exampleExpectation ''http://localhost/a'') emptyWorld))
     ''/smokehouse/snapshots/http___localhost_a_.json''
     = Some (''['' @ [CHR 0x0A] @ ''  '' @ [CHR 0x22] @ ''Driver:warn bad '' @ [CHR 0x5C, CHR 0x22]
       @ ''x'' @ [CHR 0x5C, CHR 0x22] @ '' in C:'' @ [CHR 0x5C, CHR 0x5C] @ ''tmp'' @ [CHR 0x22]
       @ '','' @ [CHR 0x0A] @ ''  '' @ [CHR 0x22] @ ''Audit:error failed'' @ [CHR 0x22]
       @ [CHR 0x0A] @ '']'')
   \<and> jsonParseLines (''['' @ [CHR 0x0A] @ ''  '' @ [CHR 0x22] @ ''Driver:warn bad ''
       @ [CHR 0x5C, CHR 0x22] @ ''x'' @ [CHR 0x5C, CHR 0x22] @ '' in C:'' @ [CHR 0x5C, CHR 0x5C]
       @ ''tmp'' @ [CHR 0x22] @ '','' @ [CHR 0x0A] @ ''  '' @ [CHR 0x22] @ ''Audit:error failed''
       @ [CHR 0x22] @ [CHR 0x0A] @ '']'')
     = Some [''Driver:warn bad '' @ [CHR 0x22] @ ''x'' @ [CHR 0x22] @ '' in C:'' @ [CHR 0x5C] @ ''tmp'',
             ''Audit:error failed'']
   \<and> map_sum id (stderr \<circ> fst) (fst (processExpectation
        (exampleEnv (exampleTool (Some 0)
           (''Mon, 03 Nov 2026 09:21:00 GMT Driver:warn bad '' @ [CHR 0x22] @ ''x'' @ [CHR 0x22]
              @ '' in C:'' @ [CHR 0x5C] @ ''tmp'' @ [CHR 0x0A] @ ''status ok'' @ [CHR 0x0A]
              @ ''Audit:error failed'')
           (Some (exampleLhr ''http://localhost/a'' None, JNull))))
        True False (exampleExpectation ''http://localhost/a'')
        (emptyWorld\<lparr>files := (\<lambda>q. if q = ''/smokehouse/snapshots/http___localhost_a_.json''
                                    then Some (''['' @ [CHR 0x22] @ ''stale'' @ [CHR 0x22] @ '']'')
                                    else None)\<rparr>)))
     = Inr (Some [''Driver:warn bad '' @ [CHR 0x22] @ ''x'' @ [CHR 0x22] @ '' in C:'' @ [CHR 0x5C] @ ''tmp'',
                  ''Audit:error failed''])"
proof -
  let ?err = "''Mon, 03 Nov 2026 09:21:00 GMT Driver:warn bad '' @ [CHR 0x22] @ ''x'' @ [CHR 0x22]
              @ '' in C:'' @ [CHR 0x5C] @ ''tmp'' @ [CHR 0x0A] @ ''status ok'' @ [CHR 0x0A]
              @ ''Audit:error failed''"
  let ?l = "exampleLhr ''http://localhost/a'' None"
  let ?e = "exampleEnv (exampleTool (Some 0) ?err (Some (?l, JNull)))"
  let ?x = "exampleExpectation ''http://localhost/a''"
  let ?w = "emptyWorld\<lparr>files := (\<lambda>q. if q = ''/smokehouse/snapshots/http___localhost_a_.json''
                                    then Some (''['' @ [CHR 0x22] @ ''stale'' @ [CHR 0x22] @ '']'')
                                    else None)\<rparr>"
  let ?res = "\<lparr>result_lhr = ?l, result_artifacts = JNull, result_stderr = normalizeStderr 29 ?err\<rparr>"
  have h1: "fst (runLighthouse ?e (requestedUrl (lhr ?x)) False (say (DoingRun (requestedUrl (lhr ?x))) ?w))
              = Inr ?res"
    by (rule example_run) (simp_all add: truthyExit_def exampleLhr_def)
  have h1': "fst (runLighthouse ?e (requestedUrl (lhr ?x)) False
                    (say (DoingRun (requestedUrl (lhr ?x))) emptyWorld)) = Inr ?res"
    by (rule example_run) (simp_all add: truthyExit_def exampleLhr_def)
  have h2: "stderr ?x = None" by (simp add: exampleExpectation_def)
  have t: "jsonStringifyLines (result_stderr ?res)
             = ''['' @ [CHR 0x0A] @ ''  '' @ [CHR 0x22] @ ''Driver:warn bad '' @ [CHR 0x5C, CHR 0x22]
       @ ''x'' @ [CHR 0x5C, CHR 0x22] @ '' in C:'' @ [CHR 0x5C, CHR 0x5C] @ ''tmp'' @ [CHR 0x22]
       @ '','' @ [CHR 0x0A] @ ''  '' @ [CHR 0x22] @ ''Audit:error failed'' @ [CHR 0x22]
       @ [CHR 0x0A] @ '']''"
    using example_warnings example_warnings_text by simp
  have n: "result_stderr ?res
             = [''Driver:warn bad '' @ [CHR 0x22] @ ''x'' @ [CHR 0x22] @ '' in C:'' @ [CHR 0x5C] @ ''tmp'',
                ''Audit:error failed'']"
    using example_warnings by simp
  from update_mode_writes_snapshot [OF h1 h2 example_path]
  obtain passed failed w1 where
    pe: "processExpectation ?e True False ?x ?w
           = (Inr (?x\<lparr>stderr := Some (result_stderr ?res)\<rparr>, passed, failed), w1)"
    and fi: "files w1 ''/smokehouse/snapshots/http___localhost_a_.json''
               = Some (jsonStringifyLines (result_stderr ?res))"
    and rt: "jsonParseLines (jsonStringifyLines (result_stderr ?res)) = Some (result_stderr ?res)"
    by blast
  from update_mode_writes_snapshot [OF h1' h2 example_path]
  obtain passed' failed' w1' where
    pe': "processExpectation ?e True False ?x emptyWorld
           = (Inr (?x\<lparr>stderr := Some (result_stderr ?res)\<rparr>, passed', failed'), w1')"
    and fi': "files w1' ''/smokehouse/snapshots/http___localhost_a_.json''
               = Some (jsonStringifyLines (result_stderr ?res))"
    by blast
  have a: "files (snd (processExpectation ?e True False ?x ?w))
             ''/smokehouse/snapshots/http___localhost_a_.json''
           = Some (jsonStringifyLines (result_stderr ?res))"
    using pe fi by simp
  have b: "files (snd (processExpectation ?e True False ?x emptyWorld))
             ''/smokehouse/snapshots/http___localhost_a_.json''
           = Some (jsonStringifyLines (result_stderr ?res))"
    using pe' fi' by simp
  have c: "map_sum id (stderr \<circ> fst) (fst (processExpectation ?e True False ?x ?w))
             = Inr (Some (result_stderr ?res))"
    using pe by simp
  from a b c rt show ?thesis unfolding t unfolding n by (intro conjI)
qed

theorem missing_snapshot_skipped_witness:
  "map_sum id (\<lambda>r. (stderr (fst r), snd r)) (fst (processExpectation
        (exampleEnv (exampleTool (Some 0)
           (''Mon, 03 Nov 2026 09:21:00 GMT Driver:warn slow page'' @ [CHR 0x0A] @ ''status ok'')
           (Some (exampleLhr ''http://localhost/a'' None, JNull))))
        False False (exampleExpectation ''http://localhost/a'') emptyWorld))
     = Inr (None, 1, 0)
   \<and> files (snd (processExpectation
        (exampleEnv (exampleTool (Some 0)
           (''Mon, 03 Nov 2026 09:21:00 GMT Driver:warn slow page'' @ [CHR 0x0A] @ ''status ok'')
           (Some (exampleLhr ''http://localhost/a'' None, JNull))))
        False False (exampleExpectation ''http://localhost/a'') emptyWorld))
     = files emptyWorld"
proof -
  let ?err = "''Mon, 03 Nov 2026 09:21:00 GMT Driver:warn slow page'' @ [CHR 0x0A] @ ''status ok''"
  let ?l = "exampleLhr ''http://localhost/a'' None"
  let ?e = "exampleEnv (exampleTool (Some 0) ?err (Some (?l, JNull)))"
  let ?x = "exampleExpectation ''http://localhost/a''"
  let ?res = "\<lparr>result_lhr = ?l, result_artifacts = JNull, result_stderr = normalizeStderr 29 ?err\<rparr>"
  have h1: "fst (runLighthouse ?e (requestedUrl (lhr ?x)) False
                   (say (DoingRun (requestedUrl (lhr ?x))) emptyWorld)) = Inr ?res"
    by (rule example_run) (simp_all add: truthyExit_def exampleLhr_def)
  have h2: "stderr ?x = None" by (simp add: exampleExpectation_def)
  have h4: "files emptyWorld ''/smokehouse/snapshots/http___localhost_a_.json'' = None"
    by (simp add: emptyWorld_def)
  have cs: "compareStructured ?e (result_lhr ?res) (result_artifacts ?res) (lhr ?x) (artifacts ?x) = [True]"
    by (simp add: exampleEnv_def)
  from missing_snapshot_skipped [OF h1 h2 example_path h4, of "[]" "(0, 0)"]
  obtain passed failed w1 where
    pe: "processExpectation ?e False False ?x emptyWorld = (Inr (?x, passed, failed), w1)"
    and co: "collateResults ?e ?res ?x
               = compareStructured ?e (result_lhr ?res) (result_artifacts ?res) (lhr ?x) (artifacts ?x)"
    and pf: "(passed, failed) = report (collateResults ?e ?res ?x)"
    and fw: "files w1 = files emptyWorld"
    by blast
  from pf have "passed = 1" "failed = 0" unfolding co cs by (simp_all add: report_def)
  with pe fw h2 show ?thesis by simp
qed




subsection \<open>The agreement of exit code and runtimeError\<close>









section \<open>Properties of the accumulation of samples\<close>

lemma map_of_snoc_other: "k' \<noteq> k \<Longrightarrow> map_of (m @ [(k, v)]) k' = map_of m k'"
  by (induction m) auto

lemma addMeasure_skip: "\<not> passes f nm \<Longrightarrow> addMeasure f l m nm = Inr m"
  by (auto simp: addMeasure_def passes_def split: option.splits)

lemma addMeasure_passes:
  assumes "find (\<lambda>en. entry_name en = nm) (timing l) = Some first" and "passes f nm"
    and "k = requestedUrl l @ ''@@@'' @ nm"
  shows "addMeasure f l m nm
           = Inr (AList.update k (samplesOf (map_of m) k @ [entry_duration first])
                    (case map_of m k of None \<Rightarrow> m @ [(k, [])] | Some old \<Rightarrow> m))"
  using assms
  by (cases "map_of m k"; cases f) (simp_all add: addMeasure_def Let_def passes_def samplesOf_def)

lemma addMeasure_map_of:
  assumes "find (\<lambda>en. entry_name en = nm) (timing l) = Some first" and "passes f nm"
  shows "\<exists>m'. addMeasure f l m nm = Inr m'
           \<and> map_of m' = (map_of m)(requestedUrl l @ ''@@@'' @ nm \<mapsto>
                 samplesOf (map_of m) (requestedUrl l @ ''@@@'' @ nm) @ [entry_duration first])"
proof -
  define k where "k = requestedUrl l @ ''@@@'' @ nm"
  let ?m1 = "case map_of m k of None \<Rightarrow> m @ [(k, [])] | Some old \<Rightarrow> m"
  have "\<And>k'. k' \<noteq> k \<Longrightarrow> map_of ?m1 k' = map_of m k'"
    by (cases "map_of m k") (auto simp: map_add_def split: option.splits)
  then have "(map_of ?m1)(k \<mapsto> samplesOf (map_of m) k @ [entry_duration first])
              = (map_of m)(k \<mapsto> samplesOf (map_of m) k @ [entry_duration first])"
    by (auto simp: fun_eq_iff)
  with addMeasure_passes [OF assms k_def, of m] show ?thesis
    unfolding k_def [symmetric] by (simp add: update_conv')
qed

lemma find_name_Some:
  "nm \<in> entry_name ` set es \<Longrightarrow> \<exists>first. find (\<lambda>en. entry_name en = nm) es = Some first"
  by (cases "find (\<lambda>en. entry_name en = nm) es") (auto simp: find_None_iff)

lemma forMeasureNames_fold:
  "set ns \<subseteq> entry_name ` set (timing l) \<Longrightarrow>
   \<exists>m'. forMeasureNames f l m ns = Inr m' \<and> map_of m' = fold (noteName f l) ns (map_of m)"
proof (induction ns arbitrary: m)
  case Nil
  then show ?case by simp
next
  case (Cons nm ns)
  then obtain first where fi: "find (\<lambda>en. entry_name en = nm) (timing l) = Some first"
    using find_name_Some [of nm "timing l"] by auto
  show ?case
  proof (cases "passes f nm")
    case True
    from addMeasure_map_of [OF fi True, of m] obtain m1 where
      a: "addMeasure f l m nm = Inr m1" and
      b: "map_of m1 = noteName f l nm (map_of m)"
      by (auto simp: noteName_def True fi)
    from Cons.IH [of m1] Cons.prems a b show ?thesis by auto
  next
    case False
    with addMeasure_skip [OF False, of l m] Cons.IH [of m] Cons.prems show ?thesis
      by (auto simp: noteName_def)
  qed
qed

lemma noteName_same:
  assumes "find (\<lambda>en. entry_name en = nm) (timing l) = Some first" and "passes f nm"
    and "k = requestedUrl l @ ''@@@'' @ nm"
  shows "noteName f l nm M = M(k \<mapsto> samplesOf M k @ [entry_duration first])"
  using assms by (simp add: noteName_def)

lemma noteName_other:
  assumes "a \<noteq> nm \<or> \<not> passes f a" and "k = requestedUrl l @ ''@@@'' @ nm"
  shows "noteName f l a M k = M k"
  using assms by (auto simp: noteName_def split: option.splits)

lemma fold_noteName_other:
  assumes "k = requestedUrl l @ ''@@@'' @ nm"
  shows "nm \<notin> set ns \<or> \<not> passes f nm \<Longrightarrow> fold (noteName f l) ns M k = M k"
proof (induction ns arbitrary: M)
  case Nil
  then show ?case by simp
next
  case (Cons a ns)
  then have "a \<noteq> nm \<or> \<not> passes f a" by auto
  from noteName_other [OF this assms, of M] Cons.IH [of "noteName f l a M"] Cons.prems
  show ?case by auto
qed

lemma fold_noteName_key:
  assumes "find (\<lambda>en. entry_name en = nm) (timing l) = Some first" and "passes f nm"
    and "k = requestedUrl l @ ''@@@'' @ nm"
  shows "fold (noteName f l) ns M k
           = (if nm \<in> set ns
              then Some (samplesOf M k @ replicate (count_list ns nm) (entry_duration first))
              else M k)"
proof (induction ns arbitrary: M)
  case Nil
  then show ?case by simp
next
  case (Cons a ns)
  define d where "d = entry_duration first"
  show ?case
  proof (cases "a = nm")
    case True
    define M1 where "M1 = M(k \<mapsto> samplesOf M k @ [d])"
    have n: "noteName f l a M = M1"
      unfolding True M1_def d_def by (rule noteName_same [OF assms])
    have s1: "samplesOf M1 k = samplesOf M k @ [d]" by (simp add: M1_def samplesOf_def)
    have m1: "M1 k = Some (samplesOf M k @ [d])" by (simp add: M1_def)
    have "fold (noteName f l) (a # ns) M k = fold (noteName f l) ns M1 k" by (simp add: n)
    also have "\<dots> = (if nm \<in> set ns
              then Some (samplesOf M1 k @ replicate (count_list ns nm) d) else M1 k)"
      unfolding d_def by (rule Cons.IH)
    also have "\<dots> = Some (samplesOf M k @ replicate (count_list (a # ns) nm) d)"
      using True s1 m1 by (simp add: replicate_append_same count_list_0_iff)
    finally show ?thesis using True by (simp add: d_def)
  next
    case False
    then have "a \<noteq> nm \<or> \<not> passes f a" by simp
    from noteName_other [OF this assms(3), of M]
    have "samplesOf (noteName f l a M) k = samplesOf M k" "noteName f l a M k = M k"
      by (simp_all add: samplesOf_def)
    with Cons.IH [of "noteName f l a M"] False show ?thesis by simp
  qed
qed

text \<open>
  C10. For a result file and a measurement name that passes the filter and occurs in the
  timing log: after the inner loop the samples under the key of that name are the earlier
  samples followed by one copy, per entry bearing the name, of the duration of the first
  such entry (the entry at the least index with that name); no other duration is added
  under that key.
\<close>

theorem first_duration_accumulated:
  assumes "find (\<lambda>en. entry_name en = nm) (timing l) = Some first"
    and "case f of None \<Rightarrow> True | Some test \<Rightarrow> test nm"
  shows "\<exists>m'. forMeasureNames f l m (map entry_name (timing l)) = Inr m'
           \<and> map_of m' (requestedUrl l @ ''@@@'' @ nm)
               = Some ((case map_of m (requestedUrl l @ ''@@@'' @ nm) of None \<Rightarrow> [] | Some old \<Rightarrow> old)
                       @ replicate (length (filter (\<lambda>en. entry_name en = nm) (timing l)))
                           (entry_duration first))
           \<and> (\<exists>i < length (timing l). timing l ! i = first \<and> entry_name first = nm
                 \<and> (\<forall>j < i. entry_name (timing l ! j) \<noteq> nm))"
proof -
  from forMeasureNames_fold [of "map entry_name (timing l)" l f m]
  obtain m' where a: "forMeasureNames f l m (map entry_name (timing l)) = Inr m'"
    and b: "map_of m' = fold (noteName f l) (map entry_name (timing l)) (map_of m)" by auto
  from assms(1) have mem: "nm \<in> set (map entry_name (timing l))"
    by (auto simp: find_Some_iff)
  have p: "passes f nm" using assms(2) by (simp add: passes_def)
  have c: "count_list (map entry_name (timing l)) nm
             = length (filter (\<lambda>en. entry_name en = nm) (timing l))"
    by (simp add: count_list_eq_length_filter comp_def eq_commute)
  from fold_noteName_key [OF assms(1) p refl, of "map entry_name (timing l)" "map_of m"] mem b c
  have "map_of m' (requestedUrl l @ ''@@@'' @ nm)
               = Some ((case map_of m (requestedUrl l @ ''@@@'' @ nm) of None \<Rightarrow> [] | Some old \<Rightarrow> old)
                       @ replicate (length (filter (\<lambda>en. entry_name en = nm) (timing l)))
                           (entry_duration first))"
    by (simp add: samplesOf_def)
  moreover from assms(1) have "\<exists>i < length (timing l). timing l ! i = first \<and> entry_name first = nm
                 \<and> (\<forall>j < i. entry_name (timing l ! j) \<noteq> nm)"
    by (auto simp: find_Some_iff)
  ultimately show ?thesis using a by blast
qed


theorem first_duration_accumulated_witness:
  "map_sum id (\<lambda>m'. map_of m' ''http://x.test/@@@a'')
     (forMeasureNames None
        (exampleTimedLhr ''http://x.test/''
           [\<lparr>entry_name = ''a'', entry_duration = Finite 1\<rparr>, \<lparr>entry_name = ''b'', entry_duration = Finite 5\<rparr>,
            \<lparr>entry_name = ''a'', entry_duration = Finite 2\<rparr>])
        []
        (map entry_name (timing (exampleTimedLhr ''http://x.test/''
           [\<lparr>entry_name = ''a'', entry_duration = Finite 1\<rparr>, \<lparr>entry_name = ''b'', entry_duration = Finite 5\<rparr>,
            \<lparr>entry_name = ''a'', entry_duration = Finite 2\<rparr>]))))
   = Inr (Some [Finite 1, Finite 1])"
proof -
  let ?l = "exampleTimedLhr ''http://x.test/''
           [\<lparr>entry_name = ''a'', entry_duration = Finite 1\<rparr>, \<lparr>entry_name = ''b'', entry_duration = Finite 5\<rparr>,
            \<lparr>entry_name = ''a'', entry_duration = Finite 2\<rparr>]"
  have h1: "find (\<lambda>en. entry_name en = ''a'') (timing ?l) = Some \<lparr>entry_name = ''a'', entry_duration = Finite 1\<rparr>"
    by (simp add: exampleTimedLhr_def)
  have h2: "case None :: (string \<Rightarrow> bool) option of None \<Rightarrow> True | Some test \<Rightarrow> test ''a''" by simp
  from first_duration_accumulated [OF h1 h2, of "[]"]
  obtain m' where a: "forMeasureNames None ?l [] (map entry_name (timing ?l)) = Inr m'"
    and b: "map_of m' (requestedUrl ?l @ ''@@@'' @ ''a'')
               = Some ((case map_of [] (requestedUrl ?l @ ''@@@'' @ ''a'') of None \<Rightarrow> [] | Some old \<Rightarrow> old)
                       @ replicate (length (filter (\<lambda>en. entry_name en = ''a'') (timing ?l)))
                           (entry_duration \<lparr>entry_name = ''a'', entry_duration = Finite 1\<rparr>))"
    by blast
  from b have "map_of m' ''http://x.test/@@@a'' = Some [Finite 1, Finite 1]"
    by (simp add: exampleTimedLhr_def)
  with a show ?thesis by simp
qed




section \<open>Properties of the statistics\<close>

subsection \<open>Rounding to a double\<close>

lemma roundEven_close: "\<bar>of_int (roundEven q) - q\<bar> \<le> 1 / 2"
  unfolding roundEven_def Let_def by (auto simp: abs_le_iff)

lemma roundEven_int [simp]: "roundEven (of_int k) = k"
  by (simp add: roundEven_def)

lemma binade_eq:
  assumes "2 powr of_int e \<le> \<bar>x\<bar>" "\<bar>x\<bar> < 2 powr of_int (e + 1)" "- 1022 \<le> e"
  shows "binade x = e"
proof -
  from assms(1) powr_gt_zero [of 2 "of_int e"] have pos: "0 < \<bar>x\<bar>" by linarith
  have "\<lfloor>log 2 \<bar>x\<bar>\<rfloor> = e"
    using assms(1,2) pos by (subst floor_log_eq_powr_iff) simp_all
  with assms(3) show ?thesis by (simp add: binade_def)
qed

lemma two_powr_neg_nat: "(2::real) powr (- real s) = 1 / 2 ^ s"
  by (simp add: powr_minus powr_realpow inverse_eq_divide)

lemma two_powr_nat: "(2::real) powr (real s) = 2 ^ s"
  by (simp add: powr_realpow)

lemma two_powr_diff_nat:
  "(2::real) powr of_int (int a - int s) = 2 ^ a / 2 ^ s"
proof -
  have "(2::real) powr of_int (int a - int s) = 2 powr (real a - real s)" by simp
  also have "\<dots> = 2 powr real a * 2 powr (- real s)" by (simp add: powr_diff powr_minus divide_inverse)
  finally show ?thesis by (simp add: two_powr_neg_nat two_powr_nat)
qed

lemma toDouble_scaled:
  assumes "2 ^ 52 \<le> \<bar>x\<bar> * 2 ^ s" "\<bar>x\<bar> * 2 ^ s < 2 ^ 53" "s \<le> 1074"
  shows "toDouble x = Finite (of_int (roundEven (x * 2 ^ s)) / 2 ^ s)"
proof -
  define e where "e = 52 - int s"
  have p: "(0::real) < 2 ^ s" by simp
  have e1: "(2::real) powr of_int e = 2 ^ 52 / 2 ^ s"
    unfolding e_def using two_powr_diff_nat [of 52 s] by simp
  have e2: "(2::real) powr of_int (e + 1) = 2 ^ 53 / 2 ^ s"
    unfolding e_def using two_powr_diff_nat [of 53 s] by (simp add: algebra_simps)
  have lo: "2 powr of_int e \<le> \<bar>x\<bar>" unfolding e1 using assms(1) p by (simp add: field_simps)
  have hi: "\<bar>x\<bar> < 2 powr of_int (e + 1)" unfolding e2 using assms(2) p by (simp add: field_simps)
  have b: "binade x = e" by (rule binade_eq [OF lo hi]) (use assms(3) in \<open>simp add: e_def\<close>)
  have nz: "x \<noteq> 0" using assms(1) by auto
  have u: "ulpOf x = 1 / 2 ^ s"
    unfolding ulpOf_def b e_def using two_powr_neg_nat [of s] by simp
  define m where "m = roundEven (x * 2 ^ s)"
  have "\<bar>of_int m - x * 2 ^ s\<bar> \<le> 1 / 2" unfolding m_def by (rule roundEven_close)
  moreover have "\<bar>x * 2 ^ s\<bar> < 2 ^ 53" using assms(2) by (simp add: abs_mult)
  ultimately have mb: "\<bar>real_of_int m\<bar> < 2 ^ 53 + 1" by linarith
  have "(1::real) \<le> 2 ^ s" by simp
  then have "\<bar>real_of_int m\<bar> * 1 \<le> \<bar>real_of_int m\<bar> * 2 ^ s"
    by (intro mult_left_mono) simp_all
  then have "\<bar>real_of_int m / 2 ^ s\<bar> \<le> \<bar>real_of_int m\<bar>"
    by (simp add: abs_divide field_simps)
  also have "\<dots> < 2 ^ 53 + 1" by (rule mb)
  also have "\<dots> < overflowBound" by (simp add: overflowBound_def)
  finally have no: "\<not> overflowBound \<le> \<bar>real_of_int m / 2 ^ s\<bar>" by simp
  show ?thesis
    using nz no by (simp add: toDouble_def Let_def u m_def)
qed

lemma toDouble_zero [simp]: "toDouble 0 = Finite 0"
  by (simp add: toDouble_def)

lemma toDouble_int:
  assumes "\<bar>k\<bar> < 2 ^ 53"
  shows "toDouble (of_int k) = Finite (of_int k)"
proof (cases "k = 0")
  case True
  then show ?thesis by simp
next
  case False
  then have "1 \<le> nat \<bar>k\<bar>" by simp
  from ex_power_ivl1 [OF _ this, of 2]
  obtain b where b: "2 ^ b \<le> nat \<bar>k\<bar>" "nat \<bar>k\<bar> < 2 ^ (b + 1)" by auto
  from b(1) assms have "(2::int) ^ b < 2 ^ 53" by (simp add: le_nat_iff)
  from power_less_imp_less_exp [OF _ this] have b52: "b \<le> 52" by simp
  define s where "s = 52 - b"
  have sb: "b + s = 52" using b52 by (simp add: s_def)
  have kr: "\<bar>real_of_int k\<bar> = real (nat \<bar>k\<bar>)" by simp
  have lo': "(2::real) ^ b \<le> \<bar>real_of_int k\<bar>"
    unfolding kr using b(1) by (metis of_nat_le_iff of_nat_numeral of_nat_power)
  have hi': "\<bar>real_of_int k\<bar> < (2::real) ^ (b + 1)"
    unfolding kr using b(2) by (metis of_nat_less_iff of_nat_numeral of_nat_power)
  have "(2::real) ^ b * 2 ^ s \<le> \<bar>real_of_int k\<bar> * 2 ^ s"
    using lo' by (intro mult_right_mono) simp_all
  then have lo: "(2::real) ^ 52 \<le> \<bar>real_of_int k\<bar> * 2 ^ s"
    by (simp add: power_add [symmetric] sb)
  have "\<bar>real_of_int k\<bar> * 2 ^ s < (2::real) ^ (b + 1) * 2 ^ s"
    using hi' by (intro mult_strict_right_mono) simp_all
  also have "(2::real) ^ (b + 1) * 2 ^ s = 2 ^ (b + 1 + s)" by (simp only: power_add)
  also have "b + 1 + s = 53" using sb by simp
  finally have hi: "\<bar>real_of_int k\<bar> * 2 ^ s < (2::real) ^ 53" .
  have "s \<le> 1074" by (simp add: s_def)
  from toDouble_scaled [OF lo hi this]
  have "toDouble (of_int k) = Finite (of_int (roundEven (of_int k * 2 ^ s)) / 2 ^ s)" .
  also have "real_of_int k * 2 ^ s = of_int (k * 2 ^ s)" by simp
  finally show ?thesis by (simp only: roundEven_int) simp
qed

lemma ulpOf_bound: "x \<noteq> 0 \<Longrightarrow> ulpOf x \<le> \<bar>x\<bar> / 2 ^ 52 + 1 / 2 ^ 1074"
proof -
  assume nz: "x \<noteq> 0"
  show ?thesis
  proof (cases "- 1022 \<le> \<lfloor>log 2 \<bar>x\<bar>\<rfloor>")
    case True
    then have b: "binade x = \<lfloor>log 2 \<bar>x\<bar>\<rfloor>" by (simp add: binade_def)
    have "of_int \<lfloor>log 2 \<bar>x\<bar>\<rfloor> \<le> log 2 \<bar>x\<bar>" by simp
    then have "2 powr of_int \<lfloor>log 2 \<bar>x\<bar>\<rfloor> \<le> 2 powr log 2 \<bar>x\<bar>" by (simp only: powr_le_cancel_iff)
    also have "\<dots> = \<bar>x\<bar>" using nz by simp
    finally have le: "2 powr of_int (binade x) \<le> \<bar>x\<bar>" by (simp add: b)
    have "ulpOf x = 2 powr (of_int (binade x) - real 52)" by (simp add: ulpOf_def)
    also have "\<dots> = 2 powr of_int (binade x) / 2 powr real 52" by (rule powr_diff)
    also have "(2::real) powr real 52 = 2 ^ 52" by (rule two_powr_nat)
    finally have "ulpOf x = 2 powr of_int (binade x) / 2 ^ 52" .
    with le have "ulpOf x \<le> \<bar>x\<bar> / 2 ^ 52" by (simp add: divide_right_mono)
    moreover have "(0::real) \<le> 1 / 2 ^ 1074" by simp
    ultimately show ?thesis by linarith
  next
    case False
    then have b: "binade x = - 1022" by (simp add: binade_def)
    have "ulpOf x = 2 powr (- real 1074)" by (simp add: ulpOf_def b)
    also have "\<dots> = 1 / 2 ^ 1074" by (rule two_powr_neg_nat)
    finally have "ulpOf x = 1 / 2 ^ 1074" .
    moreover have "0 \<le> \<bar>x\<bar> / 2 ^ 52" by simp
    ultimately show ?thesis by linarith
  qed
qed

lemma ulpOf_pos: "0 < ulpOf x"
  by (simp add: ulpOf_def)

lemma toDouble_error:
  assumes "\<bar>x\<bar> \<le> 2 ^ 1000"
  shows "\<exists>y. toDouble x = Finite y \<and> \<bar>y - x\<bar> \<le> \<bar>x\<bar> / 2 ^ 53 + 1 / 2 ^ 1075"
proof (cases "x = 0")
  case True
  then show ?thesis by simp
next
  case False
  define u where "u = ulpOf x"
  define m where "m = roundEven (x / u)"
  have up: "0 < u" unfolding u_def by (rule ulpOf_pos)
  have ub: "u \<le> \<bar>x\<bar> / 2 ^ 52 + 1 / 2 ^ 1074" unfolding u_def by (rule ulpOf_bound [OF False])
  have "\<bar>of_int m - x / u\<bar> \<le> 1 / 2" unfolding m_def by (rule roundEven_close)
  then have "\<bar>of_int m - x / u\<bar> * u \<le> 1 / 2 * u" using up by (intro mult_right_mono) simp_all
  moreover have "of_int m * u - x = (of_int m - x / u) * u" using up by (simp add: field_simps)
  then have "\<bar>of_int m - x / u\<bar> * u = \<bar>of_int m * u - x\<bar>"
    using up by (simp add: abs_mult)
  ultimately have d: "\<bar>of_int m * u - x\<bar> \<le> u / 2" by simp
  with ub have e: "\<bar>of_int m * u - x\<bar> \<le> \<bar>x\<bar> / 2 ^ 53 + 1 / 2 ^ 1075" by simp
  have "\<bar>of_int m * u\<bar> \<le> \<bar>x\<bar> + (\<bar>x\<bar> / 2 ^ 53 + 1 / 2 ^ 1075)" using e by linarith
  also have "\<dots> \<le> 2 ^ 1000 + (2 ^ 1000 / 2 ^ 53 + 1 / 2 ^ 1075)"
    using assms by (intro add_mono divide_right_mono) simp_all
  also have "\<dots> < overflowBound" by (simp add: overflowBound_def)
  finally have no: "\<not> overflowBound \<le> \<bar>of_int m * u\<bar>" by simp
  have "toDouble x = Finite (of_int m * u)"
    using False no by (simp add: toDouble_def Let_def m_def u_def)
  with e show ?thesis by blast
qed


lemma toDouble_numeral [simp]:
  "(numeral n :: int) < 2 ^ 53 \<Longrightarrow> toDouble (numeral n) = Finite (numeral n)"
  using toDouble_int [of "numeral n"] by simp

lemma toDouble_neg_numeral [simp]:
  "(numeral n :: int) < 2 ^ 53 \<Longrightarrow> toDouble (- numeral n) = Finite (- numeral n)"
  using toDouble_int [of "- numeral n"] by simp

lemma toDouble_one [simp]: "toDouble 1 = Finite 1"
  using toDouble_int [of 1] by simp

lemma toDouble_near:
  assumes "2 ^ 52 \<le> \<bar>x\<bar> * 2 ^ s" "\<bar>x\<bar> * 2 ^ s < 2 ^ 53" "s \<le> 1074"
  shows "\<exists>y. toDouble x = Finite y \<and> \<bar>y - x\<bar> \<le> 1 / 2 ^ (s + 1)"
proof -
  define m where "m = roundEven (x * 2 ^ s)"
  have "\<bar>of_int m - x * 2 ^ s\<bar> \<le> 1 / 2" unfolding m_def by (rule roundEven_close)
  then have "\<bar>of_int m - x * 2 ^ s\<bar> / 2 ^ s \<le> (1 / 2) / 2 ^ s"
    by (intro divide_right_mono) simp_all
  moreover have "of_int m / 2 ^ s - x = (of_int m - x * 2 ^ s) / 2 ^ s" by (simp add: field_simps)
  ultimately have "\<bar>of_int m / 2 ^ s - x\<bar> \<le> 1 / 2 ^ (s + 1)" by (simp add: abs_divide)
  with toDouble_scaled [OF assms] show ?thesis unfolding m_def by blast
qed

lemma scenario_d1: "toDouble (20000 / 3) = Finite (7330077518506667 / 2 ^ 40)"
proof -
  have "toDouble (20000 / 3) = Finite (of_int (roundEven ((20000 / 3) * 2 ^ 40)) / 2 ^ 40)"
    by (rule toDouble_scaled) simp_all
  moreover have "roundEven ((20000 / 3) * 2 ^ 40) = 7330077518506667"
    by (simp add: roundEven_def Let_def)
  ultimately show ?thesis by simp
qed

lemma scenario_stdev:
  "round_tenth (numSqrt (toDouble (20000 / 3))) = toDouble (408 / 5)"
proof -
  define d :: real where "d = 7330077518506667 / 2 ^ 40"
  have dpos: "0 \<le> d" by (simp add: d_def)
  have l: "816496 / 10000 \<le> sqrt d"
    by (rule real_le_rsqrt) (simp add: d_def power2_eq_square)
  have u: "sqrt d < 816497 / 10000"
    by (rule real_less_lsqrt) (simp_all add: d_def power2_eq_square)
  have "\<exists>y. toDouble (sqrt d) = Finite y \<and> \<bar>y - sqrt d\<bar> \<le> 1 / 2 ^ (46 + 1)"
    by (rule toDouble_near) (use l u in simp_all)
  then obtain y where y: "toDouble (sqrt d) = Finite y" "\<bar>y - sqrt d\<bar> \<le> 1 / 2 ^ 47" by auto
  have "1 / 2 ^ 47 \<le> (1 / 10000 :: real)" by simp
  with y(2) l u have yb: "816495 / 10000 \<le> y" "y < 816498 / 10000" by linarith+
  have "\<exists>a. toDouble (y * 10) = Finite a \<and> \<bar>a - y * 10\<bar> \<le> 1 / 2 ^ (43 + 1)"
    by (rule toDouble_near) (use yb in simp_all)
  then obtain a where a: "toDouble (y * 10) = Finite a" "\<bar>a - y * 10\<bar> \<le> 1 / 2 ^ 44" by auto
  have "1 / 2 ^ 44 \<le> (1 / 10000 :: real)" by simp
  with a(2) yb have ab: "8155 / 10 \<le> a" "a < 8165 / 10" by linarith+
  have fl: "\<lfloor>a + 1 / 2\<rfloor> = 816" by (rule floor_unique) (use ab in simp_all)
  have "toDouble (20000 / 3) = Finite d" unfolding d_def by (rule scenario_d1)
  then have "numSqrt (toDouble (20000 / 3)) = Finite y" using dpos y(1) by simp
  then show ?thesis by (simp add: round_tenth_def a(1) fl)
qed


lemma toDouble_big: "toDouble (2 ^ 1023) = Finite (2 ^ 1023)"
proof -
  define x :: real where "x = 2 ^ 1023"
  have xp: "0 < x" "\<bar>x\<bar> = x" by (simp_all add: x_def)
  have p1: "(2::real) powr of_int 1023 = x"
    using two_powr_nat [of 1023] by (simp add: x_def)
  have p2: "(2::real) powr of_int (1023 + 1) = x * 2"
  proof -
    have "(2::real) powr of_int (1023 + 1) = 2 powr real 1024" by simp
    also have "\<dots> = 2 ^ 1024" by (rule two_powr_nat)
    also have "\<dots> = 2 ^ (1023 + 1)" by simp
    also have "\<dots> = 2 ^ 1023 * 2" by (simp only: power_add power_one_right)
    finally show ?thesis by (simp add: x_def)
  qed
  have b: "binade x = 1023"
  proof (rule binade_eq)
    show "2 powr of_int 1023 \<le> \<bar>x\<bar>" unfolding p1 xp by simp
    show "\<bar>x\<bar> < 2 powr of_int (1023 + 1)" unfolding p2 xp using xp(1) by simp
    show "- 1022 \<le> (1023::int)" by simp
  qed
  have u: "ulpOf x = 2 ^ 971"
  proof -
    have "ulpOf x = 2 powr real 971" by (simp add: ulpOf_def b)
    also have "\<dots> = 2 ^ 971" by (rule two_powr_nat)
    finally show ?thesis .
  qed
  have xs: "x = 2 ^ 52 * 2 ^ 971" unfolding x_def by (simp only: power_add [symmetric]) simp
  have q: "x / 2 ^ 971 = of_int (2 ^ 52)" by (subst xs) simp
  have "of_int (roundEven (x / ulpOf x)) * ulpOf x = of_int (2 ^ 52) * 2 ^ 971"
    unfolding u q roundEven_int by (rule refl)
  also have "\<dots> = x" by (subst xs) simp
  finally have y: "of_int (roundEven (x / ulpOf x)) * ulpOf x = x" .
  have ob: "\<not> overflowBound \<le> \<bar>x\<bar>" by (simp add: overflowBound_def x_def)
  have nz: "x \<noteq> 0" using xp(1) by simp
  have "toDouble x = Finite x"
    using nz ob by (simp add: toDouble_def Let_def y)
  then show ?thesis unfolding x_def .
qed

text \<open>The sum of two doubles can overflow: \<open>2 ^ 1023 + 2 ^ 1023\<close> is \<open>Infinity\<close>.\<close>

lemma toDouble_overflow: "toDouble (2 ^ 1023 + 2 ^ 1023) = PosInf"
proof -
  define x :: real where "x = 2 ^ 1024"
  have x2: "(2::real) ^ 1023 + 2 ^ 1023 = x"
  proof -
    have "(2::real) ^ 1024 = 2 ^ (1023 + 1)" by simp
    also have "\<dots> = 2 ^ 1023 * 2" by (simp only: power_add power_one_right)
    finally show ?thesis by (simp add: x_def)
  qed
  have xp: "0 < x" "\<bar>x\<bar> = x" by (simp_all add: x_def)
  have p1: "(2::real) powr of_int 1024 = x"
    using two_powr_nat [of 1024] by (simp add: x_def)
  have p2: "(2::real) powr of_int (1024 + 1) = x * 2"
  proof -
    have "(2::real) powr of_int (1024 + 1) = 2 powr real 1025" by simp
    also have "\<dots> = 2 ^ 1025" by (rule two_powr_nat)
    also have "\<dots> = 2 ^ (1024 + 1)" by simp
    also have "\<dots> = 2 ^ 1024 * 2" by (simp only: power_add power_one_right)
    finally show ?thesis by (simp add: x_def)
  qed
  have b: "binade x = 1024"
  proof (rule binade_eq)
    show "2 powr of_int 1024 \<le> \<bar>x\<bar>" unfolding p1 xp by simp
    show "\<bar>x\<bar> < 2 powr of_int (1024 + 1)" unfolding p2 xp using xp(1) by simp
    show "- 1022 \<le> (1024::int)" by simp
  qed
  have u: "ulpOf x = 2 ^ 972"
  proof -
    have "ulpOf x = 2 powr real 972" by (simp add: ulpOf_def b)
    also have "\<dots> = 2 ^ 972" by (rule two_powr_nat)
    finally show ?thesis .
  qed
  have xs: "x = 2 ^ 52 * 2 ^ 972" unfolding x_def by (simp only: power_add [symmetric]) simp
  have q: "x / 2 ^ 972 = of_int (2 ^ 52)" by (subst xs) simp
  have "of_int (roundEven (x / ulpOf x)) * ulpOf x = of_int (2 ^ 52) * 2 ^ 972"
    unfolding u q roundEven_int by (rule refl)
  also have "\<dots> = x" by (subst xs) simp
  finally have y: "of_int (roundEven (x / ulpOf x)) * ulpOf x = x" .
  have ob: "overflowBound \<le> \<bar>x\<bar>" by (simp add: overflowBound_def x_def)
  have "toDouble x = PosInf"
    using xp(1) ob by (simp add: toDouble_def Let_def y)
  then show ?thesis unfolding x2 .
qed

subsection \<open>The statistics of a sample list\<close>

lemma average_nonempty: "vs \<noteq> [] \<Longrightarrow> average vs = Inr (meanOf vs)"
  by (cases vs) (simp_all add: average_def meanOf_def sumLeft_def)

lemma statistics_nonempty:
  assumes "samples \<noteq> []"
  shows "statistics samples =
           Inr (meanOf samples, mathMin (hd samples) (tl samples),
                mathMax (hd samples) (tl samples), populationStdev samples)"
proof -
  have m: "map (\<lambda>m. numPow2 (numSub m (meanOf samples))) samples \<noteq> []"
    using assms by simp
  show ?thesis
    by (simp only: statistics_def average_nonempty [OF assms] average_nonempty [OF m]
        sum.case Let_def populationStdev_def)
qed

lemma numMin_Finite [simp]: "numMin (Finite a) (Finite b) = Finite (min a b)"
  by (auto simp: numMin_def)

lemma numMax_Finite [simp]: "numMax (Finite a) (Finite b) = Finite (max a b)"
  by (auto simp: numMax_def)

lemma mathMin_Finite: "mathMin (Finite a) (map Finite as) = Finite (Min (set (a # as)))"
  unfolding mathMin_def
proof (induction as arbitrary: a)
  case Nil
  then show ?case by simp
next
  case (Cons x xs)
  show ?case
  proof (cases "xs = []")
    case True
    then show ?thesis by simp
  next
    case False
    then have "Min (insert (min a x) (set xs)) = Min (insert a (insert x (set xs)))"
      by (simp add: min.assoc)
    with Cons [of "min a x"] show ?thesis by simp
  qed
qed

lemma mathMax_Finite: "mathMax (Finite a) (map Finite as) = Finite (Max (set (a # as)))"
  unfolding mathMax_def
proof (induction as arbitrary: a)
  case Nil
  then show ?case by simp
next
  case (Cons x xs)
  show ?case
  proof (cases "xs = []")
    case True
    then show ?thesis by simp
  next
    case False
    then have "Max (insert (max a x) (set xs)) = Max (insert a (insert x (set xs)))"
      by (simp add: max.assoc)
    with Cons [of "max a x"] show ?thesis by simp
  qed
qed

lemma foldl_numAdd_int:
  "\<bar>acc\<bar> + sum_list (map abs ks) < 2 ^ 53 \<Longrightarrow>
   foldl numAdd (Finite (of_int acc)) (map (\<lambda>k. Finite (of_int k)) ks)
     = Finite (of_int (acc + sum_list ks))"
proof (induction ks arbitrary: acc)
  case Nil
  then show ?case by simp
next
  case (Cons k ks)
  have nn: "0 \<le> sum_list (map abs ks)" by (rule sum_list_nonneg) auto
  have b: "\<bar>acc + k\<bar> < 2 ^ 53" using Cons.prems nn by simp
  have "numAdd (Finite (of_int acc)) (Finite (of_int k)) = Finite (of_int (acc + k))"
    using toDouble_int [OF b] by simp
  moreover have "\<bar>acc + k\<bar> + sum_list (map abs ks) < 2 ^ 53" using Cons.prems by simp
  ultimately show ?case using Cons.IH [of "acc + k"] by (simp add: add.assoc)
qed

lemma sumLeft_int:
  assumes "ks \<noteq> []" "sum_list (map abs ks) < 2 ^ 53"
  shows "sumLeft (map (\<lambda>k. Finite (of_int k)) ks) = Finite (of_int (sum_list ks))"
proof -
  from assms(1) obtain k rest where ks: "ks = k # rest" by (cases ks) auto
  show ?thesis using assms(2) foldl_numAdd_int [of k rest] by (simp add: ks sumLeft_def)
qed

lemma foldl_numAdd_error:
  fixes B M d :: real
  assumes "\<forall>a \<in> set as. \<bar>a\<bar> \<le> B"
    and "\<bar>s - S\<bar> \<le> real k * d" and "\<bar>S\<bar> \<le> real k * B"
    and "real (k + length as) * B + real (k + length as) * d \<le> M"
    and "M \<le> 2 ^ 1000" and "M / 2 ^ 53 + 1 / 2 ^ 1075 \<le> d" and "0 \<le> B" and "0 \<le> d"
  shows "\<exists>s'. foldl numAdd (Finite s) (map Finite as) = Finite s'
           \<and> \<bar>s' - (S + sum_list as)\<bar> \<le> real (k + length as) * d
           \<and> \<bar>S + sum_list as\<bar> \<le> real (k + length as) * B"
  using assms(1-4)
proof (induction as arbitrary: s S k)
  case Nil
  then show ?case by simp
next
  case (Cons a as)
  have ab: "\<bar>a\<bar> \<le> B" using Cons.prems(1) by simp
  have k1: "real k + 1 \<le> real (k + length (a # as))" by simp
  have "\<bar>s + a\<bar> \<le> \<bar>s - S\<bar> + \<bar>S\<bar> + \<bar>a\<bar>" by linarith
  also have "\<dots> \<le> real k * d + real k * B + B" using Cons.prems(2,3) ab by linarith
  also have "\<dots> \<le> (real k + 1) * B + (real k + 1) * d"
    using assms(8) by (simp add: algebra_simps)
  also have "\<dots> \<le> real (k + length (a # as)) * B + real (k + length (a # as)) * d"
    by (intro add_mono mult_right_mono k1 assms(7,8))
  also have "\<dots> \<le> M" by (rule Cons.prems(4))
  finally have sa: "\<bar>s + a\<bar> \<le> M" .
  with assms(5) have "\<bar>s + a\<bar> \<le> 2 ^ 1000" by linarith
  from toDouble_error [OF this] obtain s1 where
    s1: "toDouble (s + a) = Finite s1" "\<bar>s1 - (s + a)\<bar> \<le> \<bar>s + a\<bar> / 2 ^ 53 + 1 / 2 ^ 1075"
    by blast
  have "\<bar>s + a\<bar> / 2 ^ 53 \<le> M / 2 ^ 53" using sa by (simp add: divide_right_mono)
  with s1(2) assms(6) have e1: "\<bar>s1 - (s + a)\<bar> \<le> d" by linarith
  have p2: "\<bar>s1 - (S + a)\<bar> \<le> real (Suc k) * d"
  proof -
    have "\<bar>s1 - (S + a)\<bar> \<le> \<bar>s1 - (s + a)\<bar> + \<bar>s - S\<bar>" by linarith
    also have "\<dots> \<le> d + real k * d" using e1 Cons.prems(2) by linarith
    also have "\<dots> = real (Suc k) * d" by (simp add: algebra_simps)
    finally show ?thesis .
  qed
  have p3: "\<bar>S + a\<bar> \<le> real (Suc k) * B"
  proof -
    have "\<bar>S + a\<bar> \<le> \<bar>S\<bar> + \<bar>a\<bar>" by linarith
    also have "\<dots> \<le> real k * B + B" using Cons.prems(3) ab by linarith
    also have "\<dots> = real (Suc k) * B" by (simp add: algebra_simps)
    finally show ?thesis .
  qed
  have p1: "\<forall>a \<in> set as. \<bar>a\<bar> \<le> B" using Cons.prems(1) by simp
  have p4: "real (Suc k + length as) * B + real (Suc k + length as) * d \<le> M"
    using Cons.prems(4) by simp
  from Cons.IH [OF p1 p2 p3 p4] obtain s' where
    r: "foldl numAdd (Finite s1) (map Finite as) = Finite s'"
      "\<bar>s' - (S + a + sum_list as)\<bar> \<le> real (Suc k + length as) * d"
      "\<bar>S + a + sum_list as\<bar> \<le> real (Suc k + length as) * B"
    by blast
  show ?case
    using r by (simp add: s1(1) add.assoc)
qed

lemma meanOf_error:
  fixes B :: real
  assumes "as \<noteq> []" and "\<forall>a \<in> set as. \<bar>a\<bar> \<le> B"
    and "2 * real (length as) * B + 1 \<le> 2 ^ 1000" and "length as \<le> 2 ^ 52"
  shows "\<exists>m. meanOf (map Finite as) = Finite m
           \<and> \<bar>m - sum_list as / real (length as)\<bar>
               \<le> (2 * real (length as) * B + 1) / 2 ^ 52 + 1 / 2 ^ 1074"
proof -
  define n where "n = real (length as)"
  define M where "M = 2 * n * B + 1"
  define d where "d = M / 2 ^ 53 + 1 / 2 ^ 1075"
  from assms(1) obtain a0 rest where as: "as = a0 # rest" by (cases as) auto
  have n1: "1 \<le> n" using assms(1) by (cases as) (simp_all add: n_def)
  have B0: "0 \<le> B" using assms(2) as by (auto intro: order_trans [OF abs_ge_zero])
  have M1: "1 \<le> M" using n1 B0 by (simp add: M_def)
  have d0: "0 \<le> d" using M1 by (simp add: d_def)
  have n52: "n \<le> 2 ^ 52" using assms(4) unfolding n_def
    by (metis of_nat_le_iff of_nat_numeral of_nat_power)
  have nd: "n * d \<le> n * B + 1"
  proof -
    have "n * M / 2 ^ 53 \<le> 2 ^ 52 * M / 2 ^ 53"
      using n52 M1 by (intro divide_right_mono mult_right_mono) simp_all
    also have "\<dots> = M / 2" by simp
    finally have a: "n * M / 2 ^ 53 \<le> n * B + 1 / 2" by (simp add: M_def)
    have "n * (1 / 2 ^ 1075) \<le> 2 ^ 52 * (1 / 2 ^ 1075)"
      using n52 by (intro mult_right_mono) simp_all
    also have "\<dots> \<le> 1 / 2" by simp
    finally have b: "n * (1 / 2 ^ 1075) \<le> 1 / 2" .
    have "n * d = n * M / 2 ^ 53 + n * (1 / 2 ^ 1075)" by (simp add: d_def algebra_simps)
    with a b show ?thesis by linarith
  qed
  have bound: "n * B + n * d \<le> M" using nd by (simp add: M_def algebra_simps)
  have M1000: "M \<le> 2 ^ 1000" using assms(3) by (simp add: M_def n_def)
  have "\<exists>s'. foldl numAdd (Finite a0) (map Finite rest) = Finite s'
           \<and> \<bar>s' - (a0 + sum_list rest)\<bar> \<le> real (1 + length rest) * d
           \<and> \<bar>a0 + sum_list rest\<bar> \<le> real (1 + length rest) * B"
  proof (rule foldl_numAdd_error [where M = M])
    show "\<forall>a \<in> set rest. \<bar>a\<bar> \<le> B" using assms(2) as by simp
    show "\<bar>a0 - a0\<bar> \<le> real 1 * d" using d0 by simp
    show "\<bar>a0\<bar> \<le> real 1 * B" using assms(2) as by simp
    show "real (1 + length rest) * B + real (1 + length rest) * d \<le> M"
      using bound unfolding n_def as by simp
    show "M \<le> 2 ^ 1000" by (rule M1000)
    show "M / 2 ^ 53 + 1 / 2 ^ 1075 \<le> d" by (simp add: d_def)
    show "0 \<le> B" by (rule B0)
    show "0 \<le> d" by (rule d0)
  qed
  then obtain s' where
    s': "foldl numAdd (Finite a0) (map Finite rest) = Finite s'"
      "\<bar>s' - sum_list as\<bar> \<le> n * d" "\<bar>sum_list as\<bar> \<le> n * B"
    unfolding as n_def by auto
  have npos: "0 < n" using n1 by simp
  have q: "\<bar>s' / n\<bar> \<le> M"
  proof -
    have "\<bar>s'\<bar> \<le> n * B + n * d" using s'(2,3) by linarith
    with bound have "\<bar>s'\<bar> \<le> M" by linarith
    moreover have "\<bar>s' / n\<bar> \<le> \<bar>s'\<bar>"
    proof -
      have "\<bar>s'\<bar> * 1 \<le> \<bar>s'\<bar> * n" using n1 by (intro mult_left_mono) simp_all
      then show ?thesis using npos by (simp add: abs_divide field_simps)
    qed
    ultimately show ?thesis by linarith
  qed
  with M1000 have "\<bar>s' / n\<bar> \<le> 2 ^ 1000" by linarith
  from toDouble_error [OF this] obtain m where
    m: "toDouble (s' / n) = Finite m" "\<bar>m - s' / n\<bar> \<le> \<bar>s' / n\<bar> / 2 ^ 53 + 1 / 2 ^ 1075"
    by blast
  have "\<bar>s' / n\<bar> / 2 ^ 53 \<le> M / 2 ^ 53" using q by (simp add: divide_right_mono)
  with m(2) have e1: "\<bar>m - s' / n\<bar> \<le> d" unfolding d_def by linarith
  have e2: "\<bar>s' / n - sum_list as / n\<bar> \<le> d"
  proof -
    have "\<bar>s' / n - sum_list as / n\<bar> = \<bar>s' - sum_list as\<bar> / n"
      using npos by (simp add: diff_divide_distrib [symmetric] abs_divide)
    also have "\<dots> \<le> d" using s'(2) npos by (simp add: field_simps)
    finally show ?thesis .
  qed
  have "\<bar>m - sum_list as / n\<bar> \<le> 2 * d" using e1 e2 by linarith
  also have "2 * d = M / 2 ^ 52 + 1 / 2 ^ 1074" by (simp add: d_def)
  finally have e: "\<bar>m - sum_list as / n\<bar> \<le> M / 2 ^ 52 + 1 / 2 ^ 1074" .
  have "meanOf (map Finite as) = Finite m"
    using npos m(1) unfolding as n_def
    by (simp add: meanOf_def sumLeft_def s'(1))
  with e show ?thesis unfolding M_def n_def by blast
qed

lemma round_tenth_accuracy:
  assumes "\<bar>v\<bar> \<le> 2 ^ 996"
  shows "\<exists>i::int. round_tenth (Finite v) = toDouble (of_int i / 10)
           \<and> \<bar>of_int i / 10 - v\<bar> \<le> 1 / 20 + \<bar>v\<bar> / 2 ^ 53 + 1 / 2 ^ 1075"
proof -
  have "\<bar>v * 10\<bar> \<le> 2 ^ 996 * 2 ^ 4" using assms by (simp add: abs_mult)
  then have "\<bar>v * 10\<bar> \<le> 2 ^ 1000" by (simp only: power_add [symmetric]) simp
  from toDouble_error [OF this] obtain p where
    p: "toDouble (v * 10) = Finite p" "\<bar>p - v * 10\<bar> \<le> \<bar>v * 10\<bar> / 2 ^ 53 + 1 / 2 ^ 1075"
    by blast
  define i where "i = \<lfloor>p + 1 / 2\<rfloor>"
  have "of_int i \<le> p + 1 / 2" unfolding i_def by (rule of_int_floor_le)
  moreover have "p + 1 / 2 < of_int i + 1" unfolding i_def by (rule real_of_int_floor_add_one_gt)
  ultimately have ip: "\<bar>of_int i - p\<bar> \<le> 1 / 2" by linarith
  have e: "\<bar>v * 10\<bar> / 2 ^ 53 = 10 * (\<bar>v\<bar> / 2 ^ 53)" by (simp add: abs_mult)
  have "(0::real) \<le> 1 / 2 ^ 1075" by simp
  with ip p(2) e have "\<bar>of_int i / 10 - v\<bar> \<le> 1 / 20 + \<bar>v\<bar> / 2 ^ 53 + 1 / 2 ^ 1075"
    by linarith
  moreover have "round_tenth (Finite v) = toDouble (of_int i / 10)"
    by (simp add: round_tenth_def p(1) i_def)
  ultimately show ?thesis by blast
qed

lemma toDouble_408_5: "toDouble (408 / 5) = Finite (5742089524897382 / 2 ^ 46)"
proof -
  have "toDouble (408 / 5) = Finite (of_int (roundEven ((408 / 5) * 2 ^ 46)) / 2 ^ 46)"
    by (rule toDouble_scaled) simp_all
  moreover have "roundEven ((408 / 5) * 2 ^ 46) = 5742089524897382"
    by (simp add: roundEven_def Let_def)
  ultimately show ?thesis by simp
qed

lemma toDouble_3_10: "toDouble (3 / 10) = Finite (5404319552844595 / 2 ^ 54)"
proof -
  have "toDouble (3 / 10) = Finite (of_int (roundEven ((3 / 10) * 2 ^ 54)) / 2 ^ 54)"
    by (rule toDouble_scaled) simp_all
  moreover have "roundEven ((3 / 10) * 2 ^ 54) = 5404319552844595"
    by (simp add: roundEven_def Let_def)
  ultimately show ?thesis by simp
qed

lemma toDouble_1_5: "toDouble (1 / 5) = Finite (7205759403792794 / 2 ^ 55)"
proof -
  have "toDouble (1 / 5) = Finite (of_int (roundEven ((1 / 5) * 2 ^ 55)) / 2 ^ 55)"
    by (rule toDouble_scaled) simp_all
  moreover have "roundEven ((1 / 5) * 2 ^ 55) = 7205759403792794"
    by (simp add: roundEven_def Let_def)
  ultimately show ?thesis by simp
qed

lemma toDouble_1_10: "toDouble (1 / 10) = Finite (7205759403792794 / 2 ^ 56)"
proof -
  have "toDouble (1 / 10) = Finite (of_int (roundEven ((1 / 10) * 2 ^ 56)) / 2 ^ 56)"
    by (rule toDouble_scaled) simp_all
  moreover have "roundEven ((1 / 10) * 2 ^ 56) = 7205759403792794"
    by (simp add: roundEven_def Let_def)
  ultimately show ?thesis by simp
qed

lemma toDouble_3_20: "toDouble (3 / 20) = Finite (5404319552844595 / 2 ^ 55)"
proof -
  have "toDouble (3 / 20) = Finite (of_int (roundEven ((3 / 20) * 2 ^ 55)) / 2 ^ 55)"
    by (rule toDouble_scaled) simp_all
  moreover have "roundEven ((3 / 20) * 2 ^ 55) = 5404319552844595"
    by (simp add: roundEven_def Let_def)
  ultimately show ?thesis by simp
qed

lemma toDouble_1_4: "toDouble (1 / 4) = Finite (1 / 4)"
proof -
  have "toDouble (1 / 4) = Finite (of_int (roundEven ((1 / 4) * 2 ^ 54)) / 2 ^ 54)"
    by (rule toDouble_scaled) simp_all
  moreover have "roundEven ((1 / 4) * 2 ^ 54) = 2 ^ 52"
    by (simp add: roundEven_def Let_def)
  ultimately show ?thesis by simp
qed

lemma toDouble_5_2: "toDouble (5 / 2) = Finite (5 / 2)"
proof -
  have "toDouble (5 / 2) = Finite (of_int (roundEven ((5 / 2) * 2 ^ 51)) / 2 ^ 51)"
    by (rule toDouble_scaled) simp_all
  moreover have "roundEven ((5 / 2) * 2 ^ 51) = 5 * 2 ^ 50"
    by (simp add: roundEven_def Let_def)
  ultimately show ?thesis by simp
qed

lemma toDouble_double15:
  "toDouble (5404319552844595 / 2 ^ 55) = Finite (5404319552844595 / 2 ^ 55)"
proof -
  have "toDouble (5404319552844595 / 2 ^ 55)
          = Finite (of_int (roundEven ((5404319552844595 / 2 ^ 55) * 2 ^ 55)) / 2 ^ 55)"
    by (rule toDouble_scaled) simp_all
  moreover have "roundEven ((5404319552844595 / 2 ^ 55) * 2 ^ 55) = 5404319552844595"
    by (simp add: roundEven_def Let_def)
  ultimately show ?thesis by simp
qed

lemma toDouble_double15_times10:
  "toDouble (5404319552844595 / 2 ^ 55 * 10) = Finite (3 / 2)"
proof -
  have "toDouble (5404319552844595 / 2 ^ 55 * 10)
          = Finite (of_int (roundEven ((5404319552844595 / 2 ^ 55 * 10) * 2 ^ 52)) / 2 ^ 52)"
    by (rule toDouble_scaled) simp_all
  moreover have "roundEven ((5404319552844595 / 2 ^ 55 * 10) * 2 ^ 52) = 6755399441055744"
    by (simp add: roundEven_def Let_def)
  ultimately show ?thesis by simp
qed

text \<open>
  The sum of the doubles nearest to 0.01 and 0.09 is the double below the one nearest to
  0.1 (it prints as 0.09999999999999999).
\<close>

lemma example_sum:
  "toDouble (1 / 100) = Finite (5764607523034235 / 2 ^ 59)"
  "toDouble (9 / 100) = Finite (6485183463413514 / 2 ^ 56)"
  "numAdd (Finite (5764607523034235 / 2 ^ 59)) (Finite (6485183463413514 / 2 ^ 56))
     = Finite (7205759403792793 / 2 ^ 56)"
  "toDouble (1 / 10) = Finite (7205759403792794 / 2 ^ 56)"
proof -
  have "toDouble (1 / 100) = Finite (of_int (roundEven ((1 / 100) * 2 ^ 59)) / 2 ^ 59)"
    by (rule toDouble_scaled) simp_all
  moreover have "roundEven ((1 / 100) * 2 ^ 59) = 5764607523034235"
    by (simp add: roundEven_def Let_def)
  ultimately show "toDouble (1 / 100) = Finite (5764607523034235 / 2 ^ 59)" by simp
  have "toDouble (9 / 100) = Finite (of_int (roundEven ((9 / 100) * 2 ^ 56)) / 2 ^ 56)"
    by (rule toDouble_scaled) simp_all
  moreover have "roundEven ((9 / 100) * 2 ^ 56) = 6485183463413514"
    by (simp add: roundEven_def Let_def)
  ultimately show "toDouble (9 / 100) = Finite (6485183463413514 / 2 ^ 56)" by simp
  have "toDouble (5764607523034235 / 2 ^ 59 + 6485183463413514 / 2 ^ 56)
          = Finite (of_int (roundEven ((5764607523034235 / 2 ^ 59 + 6485183463413514 / 2 ^ 56) * 2 ^ 56)) / 2 ^ 56)"
    by (rule toDouble_scaled) simp_all
  moreover have "roundEven ((5764607523034235 / 2 ^ 59 + 6485183463413514 / 2 ^ 56) * 2 ^ 56) = 7205759403792793"
    by (simp add: roundEven_def Let_def)
  ultimately show "numAdd (Finite (5764607523034235 / 2 ^ 59)) (Finite (6485183463413514 / 2 ^ 56))
     = Finite (7205759403792793 / 2 ^ 56)" by simp
  show "toDouble (1 / 10) = Finite (7205759403792794 / 2 ^ 56)" by (rule toDouble_1_10)
qed

lemma round_tenth_double15:
  "round_tenth (Finite (5404319552844595 / 2 ^ 55)) = Finite (7205759403792794 / 2 ^ 55)"
proof -
  have "numMul (Finite (5404319552844595 / 2 ^ 55)) (Finite 10) = Finite (3 / 2)"
    using toDouble_double15_times10 by simp
  then show ?thesis using toDouble_1_5 by (simp add: round_tenth_def)
qed

lemma round_tenth_quarter: "round_tenth (Finite (1 / 4)) = Finite (5404319552844595 / 2 ^ 54)"
  using toDouble_5_2 toDouble_3_10 by (simp add: round_tenth_def)


text \<open>
  C8, amended. Numbers are doubles and every operation rounds. For a key that splits into
  a URL and a measurement name and a non-empty sample list, both variants report the
  arithmetic mean (the sum taken from the left, divided by the number of samples) and the
  population standard deviation (the mean of the squared deviations, so divided by the
  number of samples and not by one less, under a square root), each passed through
  \<open>Math.round(v * 10) / 10\<close>. The second variant reports the minimum and the maximum of
  the samples as they are; the first variant passes them through the same rounding. For
  finite samples the minimum and the maximum are the least and the greatest sample; for
  integer samples whose magnitudes sum to less than \<open>2 ^ 53\<close> the sum is exact, so the
  mean is the correctly rounded quotient; for at most \<open>2 ^ 52\<close> finite samples of
  magnitude up to \<open>B\<close>, with \<open>2 * n * B + 1\<close> up to \<open>2 ^ 1000\<close>, the mean is finite and
  within \<open>(2 * n * B + 1) / 2 ^ 52 + 1 / 2 ^ 1074\<close> of the exact arithmetic mean. The
  rounding of a finite \<open>v\<close> of magnitude up to \<open>2 ^ 996\<close> yields the double nearest to a
  tenth \<open>i / 10\<close> that is within \<open>1 / 20 + \<bar>v\<bar> / 2 ^ 53 + 1 / 2 ^ 1075\<close> of \<open>v\<close>.
\<close>

theorem summary_statistics:
  assumes "samples \<noteq> []" and "splitStr ''@@@'' k = u # nm # others"
  shows "summaryRow (k, samples)
           = Inr \<lparr>row_measure = nm, row_url = u, row_n = length samples,
                  row_mean = round_tenth (meanOf samples),
                  row_stdev = round_tenth (populationStdev samples),
                  row_min = round_tenth (mathMin (hd samples) (tl samples)),
                  row_max = round_tenth (mathMax (hd samples) (tl samples))\<rparr>
       \<and> summaryRow2 (k, samples)
           = Inr \<lparr>row_measure = nm, row_url = u, row_n = length samples,
                  row_mean = round_tenth (meanOf samples),
                  row_stdev = round_tenth (populationStdev samples),
                  row_min = mathMin (hd samples) (tl samples),
                  row_max = mathMax (hd samples) (tl samples)\<rparr>
       \<and> (\<forall>as. samples = map Finite as \<longrightarrow>
              mathMin (hd samples) (tl samples) = Finite (Min (set as))
              \<and> mathMax (hd samples) (tl samples) = Finite (Max (set as)))
       \<and> (\<forall>ks. samples = map (\<lambda>i. Finite (of_int i)) ks \<and> sum_list (map abs ks) < 2 ^ 53 \<longrightarrow>
              meanOf samples = toDouble (of_int (sum_list ks) / real (length ks)))
       \<and> (\<forall>as B. samples = map Finite as \<and> (\<forall>a \<in> set as. \<bar>a\<bar> \<le> B)
                \<and> 2 * real (length as) * B + 1 \<le> 2 ^ 1000 \<and> length as \<le> 2 ^ 52 \<longrightarrow>
              (\<exists>m. meanOf samples = Finite m
                 \<and> \<bar>m - sum_list as / real (length as)\<bar>
                     \<le> (2 * real (length as) * B + 1) / 2 ^ 52 + 1 / 2 ^ 1074))
       \<and> (\<forall>v. \<bar>v\<bar> \<le> 2 ^ 996 \<longrightarrow>
              (\<exists>i::int. round_tenth (Finite v) = toDouble (of_int i / 10)
                 \<and> \<bar>of_int i / 10 - v\<bar> \<le> 1 / 20 + \<bar>v\<bar> / 2 ^ 53 + 1 / 2 ^ 1075))"
proof (intro conjI allI impI)
  show "summaryRow (k, samples)
           = Inr \<lparr>row_measure = nm, row_url = u, row_n = length samples,
                  row_mean = round_tenth (meanOf samples),
                  row_stdev = round_tenth (populationStdev samples),
                  row_min = round_tenth (mathMin (hd samples) (tl samples)),
                  row_max = round_tenth (mathMax (hd samples) (tl samples))\<rparr>"
    using assms(2) by (simp add: summaryRow_def statistics_nonempty [OF assms(1)])
  show "summaryRow2 (k, samples)
           = Inr \<lparr>row_measure = nm, row_url = u, row_n = length samples,
                  row_mean = round_tenth (meanOf samples),
                  row_stdev = round_tenth (populationStdev samples),
                  row_min = mathMin (hd samples) (tl samples),
                  row_max = mathMax (hd samples) (tl samples)\<rparr>"
    using assms(2) by (simp add: summaryRow2_def statistics_nonempty [OF assms(1)])
next
  fix as assume a: "samples = map Finite as"
  with assms(1) obtain x xs where as: "as = x # xs" by (cases as) auto
  show "mathMin (hd samples) (tl samples) = Finite (Min (set as))"
    unfolding a as using mathMin_Finite [of x xs] by (simp only: list.map list.sel)
  show "mathMax (hd samples) (tl samples) = Finite (Max (set as))"
    unfolding a as using mathMax_Finite [of x xs] by (simp only: list.map list.sel)
next
  fix ks assume h: "samples = map (\<lambda>i. Finite (of_int i)) ks \<and> sum_list (map abs ks) < 2 ^ 53"
  with assms(1) have ne: "ks \<noteq> []" by auto
  from h sumLeft_int [OF ne] have "sumLeft samples = Finite (of_int (sum_list ks))" by simp
  then show "meanOf samples = toDouble (of_int (sum_list ks) / real (length ks))"
    using h ne by (simp add: meanOf_def)
next
  fix as and B :: real
  assume h: "samples = map Finite as \<and> (\<forall>a \<in> set as. \<bar>a\<bar> \<le> B)
                \<and> 2 * real (length as) * B + 1 \<le> 2 ^ 1000 \<and> length as \<le> 2 ^ 52"
  with assms(1) have ne: "as \<noteq> []" by auto
  from h have h': "\<forall>a \<in> set as. \<bar>a\<bar> \<le> B" "2 * real (length as) * B + 1 \<le> 2 ^ 1000"
    "length as \<le> 2 ^ 52" "samples = map Finite as" by blast+
  from meanOf_error [OF ne h'(1,2,3)]
  show "\<exists>m. meanOf samples = Finite m
                 \<and> \<bar>m - sum_list as / real (length as)\<bar>
                     \<le> (2 * real (length as) * B + 1) / 2 ^ 52 + 1 / 2 ^ 1074"
    unfolding h'(4) .
next
  fix v :: real assume "\<bar>v\<bar> \<le> 2 ^ 996"
  then show "\<exists>i::int. round_tenth (Finite v) = toDouble (of_int i / 10)
                 \<and> \<bar>of_int i / 10 - v\<bar> \<le> 1 / 20 + \<bar>v\<bar> / 2 ^ 53 + 1 / 2 ^ 1075"
    by (rule round_tenth_accuracy)
qed

text \<open>
  The scenario of C8: for the samples 100, 200, 300 both variants report the mean 200,
  the minimum 100, the maximum 300 and, as the standard deviation, the double nearest to
  81.6.
\<close>

theorem summary_statistics_witness:
  "summaryRow (''http://x.test/@@@script-evaluation'', [Finite 100, Finite 200, Finite 300])
     = Inr \<lparr>row_measure = ''script-evaluation'', row_url = ''http://x.test/'', row_n = 3,
            row_mean = Finite 200, row_stdev = Finite (5742089524897382 / 2 ^ 46),
            row_min = Finite 100, row_max = Finite 300\<rparr>
   \<and> summaryRow2 (''http://x.test/@@@script-evaluation'', [Finite 100, Finite 200, Finite 300])
     = Inr \<lparr>row_measure = ''script-evaluation'', row_url = ''http://x.test/'', row_n = 3,
            row_mean = Finite 200, row_stdev = Finite (5742089524897382 / 2 ^ 46),
            row_min = Finite 100, row_max = Finite 300\<rparr>
   \<and> toDouble (408 / 5) = Finite (5742089524897382 / 2 ^ 46)"
proof -
  have h1: "[Finite 100, Finite 200, Finite 300] \<noteq> []" by simp
  have h2: "splitStr ''@@@'' ''http://x.test/@@@script-evaluation''
              = ''http://x.test/'' # ''script-evaluation'' # []"
    by (simp add: splitStr_def)
  have m: "meanOf [Finite 100, Finite 200, Finite 300] = Finite 200"
    by (simp add: meanOf_def sumLeft_def)
  have "meanOf (map (\<lambda>x. numPow2 (numSub x (Finite 200))) [Finite 100, Finite 200, Finite 300])
          = toDouble (20000 / 3)"
    by (simp add: meanOf_def sumLeft_def numPow2_def numSub_def)
  then have sd: "round_tenth (populationStdev [Finite 100, Finite 200, Finite 300])
                   = Finite (5742089524897382 / 2 ^ 46)"
    by (simp only: populationStdev_def m scenario_stdev toDouble_408_5)
  have r: "round_tenth (Finite 100) = Finite 100" "round_tenth (Finite 200) = Finite 200"
    "round_tenth (Finite 300) = Finite 300"
    by (simp_all add: round_tenth_def)
  have mm: "mathMin (Finite 100) [Finite 200, Finite 300] = Finite 100"
    "mathMax (Finite 100) [Finite 200, Finite 300] = Finite 300"
    by (simp_all add: mathMin_def mathMax_def)
  from summary_statistics [OF h1 h2]
  have "summaryRow (''http://x.test/@@@script-evaluation'', [Finite 100, Finite 200, Finite 300])
     = Inr \<lparr>row_measure = ''script-evaluation'', row_url = ''http://x.test/'', row_n = 3,
            row_mean = Finite 200, row_stdev = Finite (5742089524897382 / 2 ^ 46),
            row_min = Finite 100, row_max = Finite 300\<rparr>
   \<and> summaryRow2 (''http://x.test/@@@script-evaluation'', [Finite 100, Finite 200, Finite 300])
     = Inr \<lparr>row_measure = ''script-evaluation'', row_url = ''http://x.test/'', row_n = 3,
            row_mean = Finite 200, row_stdev = Finite (5742089524897382 / 2 ^ 46),
            row_min = Finite 100, row_max = Finite 300\<rparr>"
    by (simp only: m sd r mm list.sel list.size) simp
  with toDouble_408_5 show ?thesis by blast
qed

text \<open>
  C8, as the claim states it, fails. The first variant does not report the minimum of the
  samples: for the single sample 0.25 it reports the double nearest to 0.3. The rounding is
  not always to the nearest tenth: for the single sample that is the double nearest to
  0.15 (it lies below 0.15, nearer to 0.1 than to 0.2) the product with 10 rounds to 1.5
  and the reported mean is the double nearest to 0.2. And the reported mean need not be
  near the arithmetic mean at all: for the two samples \<open>2 ^ 1023\<close> the sum overflows and
  the reported mean is \<open>Infinity\<close>.
\<close>

theorem summary_min_counterexample:
  "map_sum id row_min (summaryRow (''http://x.test/@@@m'', [Finite (1 / 4)]))
     = Inr (Finite (5404319552844595 / 2 ^ 54))
   \<and> toDouble (3 / 10) = Finite (5404319552844595 / 2 ^ 54)
   \<and> Min (set [1 / 4 :: real]) = 1 / 4
   \<and> toDouble (3 / 20) = Finite (5404319552844595 / 2 ^ 55)
   \<and> map_sum id row_mean (summaryRow2 (''http://x.test/@@@m'', [Finite (5404319552844595 / 2 ^ 55)]))
     = Inr (Finite (7205759403792794 / 2 ^ 55))
   \<and> toDouble (1 / 5) = Finite (7205759403792794 / 2 ^ 55)
   \<and> \<bar>5404319552844595 / 2 ^ 55 - 1 / 10\<bar> < \<bar>5404319552844595 / 2 ^ 55 - 1 / (5 :: real)\<bar>
   \<and> map_sum id row_mean (summaryRow2 (''http://x.test/@@@m'', [Finite (2 ^ 1023), Finite (2 ^ 1023)]))
     = Inr PosInf
   \<and> toDouble (2 ^ 1023) = Finite (2 ^ 1023)"
proof -
  have h2: "splitStr ''@@@'' ''http://x.test/@@@m'' = ''http://x.test/'' # ''m'' # []"
    by (simp add: splitStr_def)
  have "statistics [Finite (1 / 4)]
          = Inr (Finite (1 / 4), Finite (1 / 4), Finite (1 / 4), Finite 0)"
    using toDouble_1_4
    by (simp add: statistics_nonempty meanOf_def sumLeft_def populationStdev_def
        mathMin_def mathMax_def numPow2_def numSub_def)
  then have a: "map_sum id row_min (summaryRow (''http://x.test/@@@m'', [Finite (1 / 4)]))
     = Inr (Finite (5404319552844595 / 2 ^ 54))"
    using round_tenth_quarter by (simp add: summaryRow_def h2)
  have "statistics [Finite (5404319552844595 / 2 ^ 55)]
          = Inr (Finite (5404319552844595 / 2 ^ 55), Finite (5404319552844595 / 2 ^ 55),
                 Finite (5404319552844595 / 2 ^ 55), Finite 0)"
    using toDouble_double15
    by (simp add: statistics_nonempty meanOf_def sumLeft_def populationStdev_def
        mathMin_def mathMax_def numPow2_def numSub_def)
  then have b: "map_sum id row_mean
       (summaryRow2 (''http://x.test/@@@m'', [Finite (5404319552844595 / 2 ^ 55)]))
     = Inr (Finite (7205759403792794 / 2 ^ 55))"
    using round_tenth_double15 by (simp add: summaryRow2_def h2)
  have c: "\<bar>5404319552844595 / 2 ^ 55 - 1 / 10\<bar> < \<bar>5404319552844595 / 2 ^ 55 - 1 / (5 :: real)\<bar>"
    by simp
  have d: "Min (set [1 / 4 :: real]) = 1 / 4" by simp
  define big :: real where "big = 2 ^ 1023"
  have ov: "numAdd (Finite big) (Finite big) = PosInf"
    unfolding big_def by (simp only: numAdd.simps toDouble_overflow)
  have "statistics [Finite big, Finite big] = Inr (PosInf, Finite big, Finite big, PosInf)"
    by (simp add: statistics_nonempty meanOf_def sumLeft_def populationStdev_def
        mathMin_def mathMax_def numPow2_def numSub_def ov infBySign_def del: numAdd.simps(1))
  then have "map_sum id row_mean (summaryRow2 (''http://x.test/@@@m'', [Finite big, Finite big]))
     = Inr PosInf"
    by (simp add: summaryRow2_def h2 round_tenth_def infBySign_def)
  then have f: "map_sum id row_mean
       (summaryRow2 (''http://x.test/@@@m'', [Finite (2 ^ 1023), Finite (2 ^ 1023)])) = Inr PosInf"
    unfolding big_def .
  show ?thesis by (intro conjI a b c d f toDouble_big toDouble_3_10 toDouble_3_20 toDouble_1_5)
qed


section \<open>Properties of the summary rows and their order\<close>












































end
